theory Spec2Isabelle
  imports Complex_Main "HOL-Library.Multiset"
begin

section \<open>Documents of the three collections\<close>

text \<open>
  The Mongoose schemas of \<^verbatim>\<open>src/index.js\<close>, one record per schema, with the fields the
  schema declares. A JavaScript string is a list of code units; the model covers the code
  units below 256. A \<^verbatim>\<open>Number\<close> field holds a finite number, a \<^verbatim>\<open>Date\<close> the
  milliseconds since the epoch. Documents are taken with every declared field present.
\<close>

record event =
  event_name :: string
  date :: int
  duration :: real

record signee =
  childFirstName :: string
  childLastName :: string
  parentFirstName :: string
  parentLastName :: string
  parentPhoneNumber :: string

record session =
  day :: string
  time :: string
  maxSignups :: real
  price :: real
  signees :: "signee list"

record gym_class =
  name :: string
  sessions :: "session list"
  class_id :: string

record gymnastics =
  classes :: "gym_class list"
  season :: string

section \<open>Library functions the handlers call\<close>

text \<open>
  \<^verbatim>\<open>String.prototype.toLowerCase\<close> on the code units below 256: the letters A to Z and
  the Latin-1 capitals U+00C0 to U+00DE (U+00D7, the multiplication sign, apart) move up
  by 32, every other code unit stays.
\<close>

definition lower_char :: "char \<Rightarrow> char" where
  "lower_char c =
     (let n = (of_char c :: nat)
      in if (65 \<le> n \<and> n \<le> 90) \<or> (192 \<le> n \<and> n \<le> 222 \<and> n \<noteq> 215)
         then char_of (n + 32) else c)"

definition toLowerCase :: "string \<Rightarrow> string" where
  "toLowerCase s = map lower_char s"

text \<open>
  The sanitizers of express-validator (validator.js): \<^verbatim>\<open>trim\<close> strips the white space
  of \<^verbatim>\<open>\s\<close> at both ends, \<^verbatim>\<open>escape\<close> replaces each of the eight characters
  \<^verbatim>\<open>& " ' < > / \ `\<close> by its HTML entity.
\<close>

definition is_space :: "char \<Rightarrow> bool" where
  "is_space c = ((of_char c :: nat) \<in> {9, 10, 11, 12, 13, 32, 160})"

definition trim :: "string \<Rightarrow> string" where
  "trim s = rev (dropWhile is_space (rev (dropWhile is_space s)))"

definition escape_char :: "char \<Rightarrow> string" where
  "escape_char c =
     (if c = CHR ''&'' then ''&amp;''
      else if c = CHR 0x22 then ''&quot;''
      else if c = CHR 0x27 then ''&#x27;''
      else if c = CHR ''<'' then ''&lt;''
      else if c = CHR ''>'' then ''&gt;''
      else if c = CHR ''/'' then ''&#x2F;''
      else if c = CHR 0x5C then ''&#x5C;''
      else if c = CHR 0x60 then ''&#96;''
      else [c])"

definition escape :: "string \<Rightarrow> string" where
  "escape s = concat (map escape_char s)"

definition isLength :: "nat \<Rightarrow> nat \<Rightarrow> string \<Rightarrow> bool" where
  "isLength lo hi s = (lo \<le> length s \<and> length s \<le> hi)"

text \<open>
  \<^verbatim>\<open>he.decode\<close> and \<^verbatim>\<open>isMobilePhone\<close> are not part of the repository: the handler takes
  them as parameters. \<open>decode_escaped\<close> is a decoder for the eight entities that
  \<open>escape\<close> writes, the part of \<^verbatim>\<open>he.decode\<close> that concrete runs below need
  (\<open>decode_from k\<close> first skips the \<open>k\<close> characters left of an entity it has replaced);
  \<open>digits_phone\<close> stands in for \<^verbatim>\<open>isMobilePhone\<close> there and accepts ten digits.
\<close>

record libs =
  he_decode :: "string \<Rightarrow> string"
  isMobilePhone :: "string \<Rightarrow> bool"

fun is_prefix :: "string \<Rightarrow> string \<Rightarrow> bool" where
  "is_prefix [] s = True"
| "is_prefix (p # ps) [] = False"
| "is_prefix (p # ps) (c # cs) = (p = c \<and> is_prefix ps cs)"

definition entities :: "(string \<times> char) list" where
  "entities =
     [(''&amp;'', CHR ''&''), (''&quot;'', CHR 0x22), (''&#x27;'', CHR 0x27),
      (''&lt;'', CHR ''<''), (''&gt;'', CHR ''>''), (''&#x2F;'', CHR ''/''),
      (''&#x5C;'', CHR 0x5C), (''&#96;'', CHR 0x60)]"

fun decode_from :: "nat \<Rightarrow> string \<Rightarrow> string" where
  "decode_from k [] = []"
| "decode_from (Suc k) (c # cs) = decode_from k cs"
| "decode_from 0 (c # cs) =
     (case find (\<lambda>(e, d). is_prefix e (c # cs)) entities of
        Some (e, d) \<Rightarrow> d # decode_from (length e - 1) cs
      | None \<Rightarrow> c # decode_from 0 cs)"

definition decode_escaped :: "string \<Rightarrow> string" where
  "decode_escaped s = decode_from 0 s"

definition digits_phone :: "string \<Rightarrow> bool" where
  "digits_phone s = (length s = 10 \<and> list_all (\<lambda>c. 48 \<le> (of_char c :: nat) \<and> (of_char c :: nat) \<le> 57) s)"

definition std_libs :: libs where
  "std_libs = \<lparr>he_decode = decode_escaped, isMobilePhone = digits_phone\<rparr>"

section \<open>POST /class-signup\<close>

record body =
  b_className :: string
  b_day :: string
  b_time :: string
  b_signee :: signee

text \<open>The validation chains rewrite the body (lines 137 to 152) and collect the fields that fail.\<close>

definition sanitize :: "body \<Rightarrow> body" where
  "sanitize b =
     \<lparr>b_className = escape (trim (b_className b)),
      b_day = escape (trim (b_day b)),
      b_time = escape (trim (b_time b)),
      b_signee =
        \<lparr>childFirstName = escape (trim (childFirstName (b_signee b))),
         childLastName = escape (trim (childLastName (b_signee b))),
         parentFirstName = escape (trim (parentFirstName (b_signee b))),
         parentLastName = escape (trim (parentLastName (b_signee b))),
         parentPhoneNumber = trim (parentPhoneNumber (b_signee b))\<rparr>\<rparr>"

definition validation_errors :: "libs \<Rightarrow> body \<Rightarrow> string list" where
  "validation_errors L b =
     (if isLength 1 100 (b_className b) then [] else [''className''])
     @ (if isLength 1 20 (b_day b) then [] else [''day''])
     @ (if isLength 1 20 (b_time b) then [] else [''time''])
     @ (if isLength 1 50 (childFirstName (b_signee b)) then [] else [''signee.childFirstName''])
     @ (if isLength 1 50 (childLastName (b_signee b)) then [] else [''signee.childLastName''])
     @ (if isLength 1 50 (parentFirstName (b_signee b)) then [] else [''signee.parentFirstName''])
     @ (if isLength 1 50 (parentLastName (b_signee b)) then [] else [''signee.parentLastName''])
     @ (if isMobilePhone L (parentPhoneNumber (b_signee b)) then []
        else [''signee.parentPhoneNumber''])"

datatype response =
    ValidationFailed "string list"
  | NoClassData
  | ClassNotFound
  | SessionNotFound
  | AlreadySignedUp
  | SessionFull
  | SignupSuccessful
  | ServerError

fun status :: "response \<Rightarrow> nat" where
  "status (ValidationFailed es) = 400"
| "status NoClassData = 500"
| "status ClassNotFound = 404"
| "status SessionNotFound = 404"
| "status AlreadySignedUp = 400"
| "status SessionFull = 400"
| "status SignupSuccessful = 200"
| "status ServerError = 500"

text \<open>
  The text sent with the status; for success the \<^verbatim>\<open>message\<close> of the JSON sent, for
  validation errors the key of the JSON that lists them.
\<close>

fun message :: "response \<Rightarrow> string" where
  "message (ValidationFailed es) = ''errors''"
| "message NoClassData = ''No class data found''"
| "message ClassNotFound = ''Class not found''"
| "message SessionNotFound = ''Session not found''"
| "message AlreadySignedUp = ''Already signed up''"
| "message SessionFull = ''Session is full''"
| "message SignupSuccessful = ''Signup successful''"
| "message ServerError = ''Server error''"

text \<open>
  The store. A collection is the list of its documents in natural order; \<^verbatim>\<open>findOne()\<close>
  returns the first. An awaited store call may reject, which the handler catches:
  \<open>store_fault\<close> says which call of the request does. A rejected update is one the store
  did not apply.
\<close>

datatype store_fault = NoFault | FindRejects | UpdateRejects

definition findOne :: "'a list \<Rightarrow> 'a option" where
  "findOne docs = (case docs of [] \<Rightarrow> None | d # _ \<Rightarrow> Some d)"

text \<open>The setters of \<^verbatim>\<open>SigneeSchema\<close> (lines 42 to 51), run when the update is cast.\<close>

definition cast_signee :: "signee \<Rightarrow> signee" where
  "cast_signee sg =
     \<lparr>childFirstName = toLowerCase (childFirstName sg),
      childLastName = toLowerCase (childLastName sg),
      parentFirstName = toLowerCase (parentFirstName sg),
      parentLastName = toLowerCase (parentLastName sg),
      parentPhoneNumber = parentPhoneNumber sg\<rparr>"

text \<open>
  The query of \<^verbatim>\<open>findOneAndUpdate\<close> (lines 200 to 204): three conditions on dotted paths,
  each met by some array element on its own.
\<close>

definition query_matches :: "string \<Rightarrow> string \<Rightarrow> string \<Rightarrow> gymnastics \<Rightarrow> bool" where
  "query_matches cn d t doc =
     ((\<exists>c \<in> set (classes doc). name c = cn)
      \<and> (\<exists>c \<in> set (classes doc). \<exists>s \<in> set (sessions c). day s = d)
      \<and> (\<exists>c \<in> set (classes doc). \<exists>s \<in> set (sessions c). time s = t))"

text \<open>
  The update (lines 205 to 211): \<^verbatim>\<open>$push\<close> on
  \<^verbatim>\<open>classes.$[cls].sessions.$[session].signees\<close>, where \<^verbatim>\<open>cls\<close> ranges over the
  classes with the name and \<^verbatim>\<open>session\<close> over their sessions with the day and time.
\<close>

definition push_session :: "string \<Rightarrow> string \<Rightarrow> signee \<Rightarrow> session \<Rightarrow> session" where
  "push_session d t sg s =
     (if day s = d \<and> time s = t then s\<lparr>signees := signees s @ [cast_signee sg]\<rparr> else s)"

definition push_class :: "string \<Rightarrow> string \<Rightarrow> string \<Rightarrow> signee \<Rightarrow> gym_class \<Rightarrow> gym_class" where
  "push_class cn d t sg c =
     (if name c = cn then c\<lparr>sessions := map (push_session d t sg) (sessions c)\<rparr> else c)"

definition push_signee :: "string \<Rightarrow> string \<Rightarrow> string \<Rightarrow> signee \<Rightarrow> gymnastics \<Rightarrow> gymnastics" where
  "push_signee cn d t sg doc = doc\<lparr>classes := map (push_class cn d t sg) (classes doc)\<rparr>"

fun findOneAndUpdate :: "('a \<Rightarrow> bool) \<Rightarrow> ('a \<Rightarrow> 'a) \<Rightarrow> 'a list \<Rightarrow> 'a list" where
  "findOneAndUpdate q u [] = []"
| "findOneAndUpdate q u (d # ds) = (if q d then u d # ds else d # findOneAndUpdate q u ds)"

text \<open>
  The handler (lines 154 to 219), on the validation errors and the rewritten body. It
  returns the response and the collection it leaves.
\<close>

definition handler ::
  "libs \<Rightarrow> store_fault \<Rightarrow> string list \<Rightarrow> body \<Rightarrow> gymnastics list \<Rightarrow> response \<times> gymnastics list" where
  "handler L flt errors b db =
     (if errors \<noteq> [] then (ValidationFailed errors, db)
      else if flt = FindRejects then (ServerError, db)
      else case findOne db of
        None \<Rightarrow> (NoClassData, db)
      | Some dbEntry \<Rightarrow>
          (let decodedClassName = he_decode L (b_className b)
           in case find (\<lambda>c. name c = decodedClassName) (classes dbEntry) of
             None \<Rightarrow> (ClassNotFound, db)
           | Some classItem \<Rightarrow>
               (case find (\<lambda>s. day s = b_day b \<and> time s = b_time b) (sessions classItem) of
                  None \<Rightarrow> (SessionNotFound, db)
                | Some sess \<Rightarrow>
                    (let signeeFirstName = toLowerCase (childFirstName (b_signee b));
                         signeeLastName = toLowerCase (childLastName (b_signee b));
                         alreadySignedUp =
                           list_ex (\<lambda>s. childFirstName s = signeeFirstName
                                        \<and> childLastName s = signeeLastName) (signees sess)
                     in if alreadySignedUp then (AlreadySignedUp, db)
                        else if maxSignups sess \<le> real (length (signees sess))
                          then (SessionFull, db)
                        else if flt = UpdateRejects then (ServerError, db)
                        else (SignupSuccessful,
                              findOneAndUpdate
                                (query_matches decodedClassName (b_day b) (b_time b))
                                (push_signee decodedClassName (b_day b) (b_time b) (b_signee b))
                                db)))))"

definition class_signup ::
  "libs \<Rightarrow> store_fault \<Rightarrow> body \<Rightarrow> gymnastics list \<Rightarrow> response \<times> gymnastics list" where
  "class_signup L flt raw db =
     (let b = sanitize raw in handler L flt (validation_errors L b) b db)"

text \<open>Requests handled one after the other, each on the collection the one before left.\<close>

fun run :: "libs \<Rightarrow> (store_fault \<times> body) list \<Rightarrow> gymnastics list \<Rightarrow> gymnastics list" where
  "run L [] db = db"
| "run L ((flt, raw) # rs) db = run L rs (snd (class_signup L flt raw db))"

text \<open>
  The session the handler checks (lines 164 to 176): the first session with the day and
  time in the first class with the name, in the first document.
\<close>

definition checked_session :: "string \<Rightarrow> string \<Rightarrow> string \<Rightarrow> gymnastics list \<Rightarrow> session option" where
  "checked_session cn d t db =
     (case findOne db of
        None \<Rightarrow> None
      | Some dbEntry \<Rightarrow>
          (case find (\<lambda>c. name c = cn) (classes dbEntry) of
             None \<Rightarrow> None
           | Some classItem \<Rightarrow> find (\<lambda>s. day s = d \<and> time s = t) (sessions classItem)))"

definition signed_up :: "string \<Rightarrow> string \<Rightarrow> session \<Rightarrow> bool" where
  "signed_up f l s =
     list_ex (\<lambda>g. childFirstName g = toLowerCase f \<and> childLastName g = toLowerCase l) (signees s)"

text \<open>What the handler reads off a request once the validation chains have run.\<close>

definition valid :: "libs \<Rightarrow> body \<Rightarrow> bool" where
  "valid L raw = (validation_errors L (sanitize raw) = [])"

definition decodedClassName :: "libs \<Rightarrow> body \<Rightarrow> string" where
  "decodedClassName L raw = he_decode L (b_className (sanitize raw))"

definition given_day :: "body \<Rightarrow> string" where
  "given_day raw = b_day (sanitize raw)"

definition given_time :: "body \<Rightarrow> string" where
  "given_time raw = b_time (sanitize raw)"

definition given_signee :: "body \<Rightarrow> signee" where
  "given_signee raw = b_signee (sanitize raw)"

text \<open>
  The sessions a request addresses in a catalog, those the update appends to: every
  session with the day and time in every class with the name. And the number of signees
  of a session with a given pair of child names.
\<close>

definition matching_sessions :: "string \<Rightarrow> string \<Rightarrow> string \<Rightarrow> gymnastics \<Rightarrow> session list" where
  "matching_sessions cn d t doc =
     concat (map (\<lambda>c. filter (\<lambda>s. day s = d \<and> time s = t) (sessions c))
               (filter (\<lambda>c. name c = cn) (classes doc)))"

definition count_child :: "string \<Rightarrow> string \<Rightarrow> session \<Rightarrow> nat" where
  "count_child f l s =
     length (filter (\<lambda>g. childFirstName g = f \<and> childLastName g = l) (signees s))"

section \<open>Properties of a collection\<close>

definition cap_ok :: "gymnastics \<Rightarrow> bool" where
  "cap_ok doc =
     (\<forall>c \<in> set (classes doc). \<forall>s \<in> set (sessions c). real (length (signees s)) \<le> maxSignups s)"

definition whole_caps :: "gymnastics \<Rightarrow> bool" where
  "whole_caps doc =
     (\<forall>c \<in> set (classes doc). \<forall>s \<in> set (sessions c). maxSignups s = of_int \<lfloor>maxSignups s\<rfloor>)"

definition well_keyed :: "gymnastics \<Rightarrow> bool" where
  "well_keyed doc =
     (distinct (map name (classes doc))
      \<and> (\<forall>c \<in> set (classes doc). distinct (map (\<lambda>s. (day s, time s)) (sessions c))))"

definition all_signees :: "gymnastics list \<Rightarrow> signee set" where
  "all_signees db =
     (\<Union>doc \<in> set db. \<Union>c \<in> set (classes doc). \<Union>s \<in> set (sessions c). set (signees s))"

definition lower_names :: "signee \<Rightarrow> bool" where
  "lower_names g =
     (toLowerCase (childFirstName g) = childFirstName g
      \<and> toLowerCase (childLastName g) = childLastName g
      \<and> toLowerCase (parentFirstName g) = parentFirstName g
      \<and> toLowerCase (parentLastName g) = parentLastName g)"

section \<open>GET /classes and GET /events\<close>

text \<open>
  The JSON that \<^verbatim>\<open>GET /classes\<close> sends: the documents with \<^verbatim>\<open>signees\<close> overwritten by
  a number (lines 89 to 114).
\<close>

record session_json =
  j_day :: string
  j_time :: string
  j_maxSignups :: real
  j_price :: real
  j_signees :: nat

record class_json =
  j_name :: string
  j_sessions :: "session_json list"
  j_class_id :: string

record catalog_json =
  j_season :: string
  j_classes :: "class_json list"

record classes_json =
  signups :: catalog_json
  upcoming :: catalog_json

datatype classes_response =
    SignupsNotFound
  | UpcomingNotFound
  | ClassesServerError
  | ClassesOk classes_json

definition session_with_count :: "session \<Rightarrow> session_json" where
  "session_with_count s =
     \<lparr>j_day = day s, j_time = time s, j_maxSignups = maxSignups s, j_price = price s,
      j_signees = length (signees s)\<rparr>"

definition classes_with_counts :: "gymnastics \<Rightarrow> class_json list" where
  "classes_with_counts entry =
     map (\<lambda>cls. \<lparr>j_name = name cls,
                 j_sessions = map session_with_count (sessions cls),
                 j_class_id = class_id cls\<rparr>) (classes entry)"

definition get_classes :: "store_fault \<Rightarrow> gymnastics list \<Rightarrow> gymnastics list \<Rightarrow> classes_response" where
  "get_classes flt signups_db upcoming_db =
     (if flt = FindRejects then ClassesServerError
      else case findOne signups_db of
        None \<Rightarrow> SignupsNotFound
      | Some signupsEntry \<Rightarrow>
          (case findOne upcoming_db of
             None \<Rightarrow> UpcomingNotFound
           | Some upcomingEntry \<Rightarrow>
               ClassesOk
                 \<lparr>signups = \<lparr>j_season = season signupsEntry,
                             j_classes = classes_with_counts signupsEntry\<rparr>,
                  upcoming = \<lparr>j_season = season upcomingEntry,
                              j_classes = classes_with_counts upcomingEntry\<rparr>\<rparr>))"

text \<open>\<^verbatim>\<open>Event.find().sort({ date: 1 })\<close>: the store returns the events in ascending order of date.\<close>

datatype events_response = EventsServerError | EventsOk "event list"

definition get_events :: "store_fault \<Rightarrow> event list \<Rightarrow> events_response" where
  "get_events flt events_db =
     (if flt = FindRejects then EventsServerError else EventsOk (sort_key date events_db))"

section \<open>Sample data\<close>

definition mk_session :: "string \<Rightarrow> string \<Rightarrow> real \<Rightarrow> signee list \<Rightarrow> session" where
  "mk_session d t m gs = \<lparr>day = d, time = t, maxSignups = m, price = 10, signees = gs\<rparr>"

definition mk_signee :: "string \<Rightarrow> string \<Rightarrow> signee" where
  "mk_signee f l =
     \<lparr>childFirstName = f, childLastName = l, parentFirstName = ''pat'', parentLastName = l,
      parentPhoneNumber = ''2125551234''\<rparr>"

definition mk_catalog :: "session list \<Rightarrow> gymnastics" where
  "mk_catalog ss =
     \<lparr>classes = [\<lparr>name = ''Tumbling'', sessions = ss, class_id = ''tumbling''\<rparr>],
      season = ''Fall''\<rparr>"

definition mk_body :: "string \<Rightarrow> string \<Rightarrow> string \<Rightarrow> string \<Rightarrow> string \<Rightarrow> body" where
  "mk_body cn d t f l =
     \<lparr>b_className = cn, b_day = d, b_time = t,
      b_signee = \<lparr>childFirstName = f, childLastName = l, parentFirstName = ''Pat'',
                  parentLastName = l, parentPhoneNumber = ''2125551234''\<rparr>\<rparr>"

text \<open>
  The example of the specification: class Tumbling with one session, Monday 4:00pm, two
  places; no child yet, Ana Lee signed up, and Ana Lee and Ben Kim signed up.
\<close>

definition db_none :: "gymnastics list" where
  "db_none = [mk_catalog [mk_session ''Mon'' ''4:00pm'' 2 []]]"

definition db_ana :: "gymnastics list" where
  "db_ana = [mk_catalog [mk_session ''Mon'' ''4:00pm'' 2 [mk_signee ''ana'' ''lee'']]]"

definition db_full :: "gymnastics list" where
  "db_full =
     [mk_catalog [mk_session ''Mon'' ''4:00pm'' 2 [mk_signee ''ana'' ''lee'', mk_signee ''ben'' ''kim'']]]"

definition signup_for :: "string \<Rightarrow> string \<Rightarrow> body" where
  "signup_for f l = mk_body ''Tumbling'' ''Mon'' ''4:00pm'' f l"

text \<open>
  A catalog where two sessions of the class share a day and time: the first has two free
  places, the second one place, taken.
\<close>

definition db_twin :: "gymnastics list" where
  "db_twin =
     [mk_catalog [mk_session ''Mon'' ''4:00pm'' 2 [],
                  mk_session ''Tue'' ''4:00pm'' 2 [],
                  mk_session ''Mon'' ''4:00pm'' 1 [mk_signee ''zoe'' ''ray'']]]"

definition db_twin_ana :: "gymnastics list" where
  "db_twin_ana =
     [mk_catalog [mk_session ''Mon'' ''4:00pm'' 2 [mk_signee ''ana'' ''lee''],
                  mk_session ''Tue'' ''4:00pm'' 2 [],
                  mk_session ''Mon'' ''4:00pm'' 1 [mk_signee ''zoe'' ''ray'', mk_signee ''ana'' ''lee'']]]"

text \<open>
  The same two sessions, where the second lists Ana Lee already and has room for more.
\<close>

definition db_listed :: "gymnastics list" where
  "db_listed =
     [mk_catalog [mk_session ''Mon'' ''4:00pm'' 2 [],
                  mk_session ''Mon'' ''4:00pm'' 3 [mk_signee ''ana'' ''lee'']]]"

definition db_listed_ana :: "gymnastics list" where
  "db_listed_ana =
     [mk_catalog [mk_session ''Mon'' ''4:00pm'' 2 [mk_signee ''ana'' ''lee''],
                  mk_session ''Mon'' ''4:00pm'' 3 [mk_signee ''ana'' ''lee'', mk_signee ''ana'' ''lee'']]]"

text \<open>
  Catalogs with a session on ``Mon/Wed'': stored under the text as typed, and stored
  under both that text and its escaped form.
\<close>

definition db_slash :: "gymnastics list" where
  "db_slash = [mk_catalog [mk_session ''Mon/Wed'' ''4:00pm'' 2 []]]"

definition db_slash_both :: "gymnastics list" where
  "db_slash_both =
     [mk_catalog [mk_session ''Mon/Wed'' ''4:00pm'' 2 [],
                  mk_session ''Mon&#x2F;Wed'' ''4:00pm'' 2 []]]"

definition db_slash_both_ana :: "gymnastics list" where
  "db_slash_both_ana =
     [mk_catalog [mk_session ''Mon/Wed'' ''4:00pm'' 2 [],
                  mk_session ''Mon&#x2F;Wed'' ''4:00pm'' 2 [mk_signee ''ana'' ''lee'']]]"

text \<open>A session whose \<open>maxSignups\<close> is not a whole number, with two signees.\<close>

definition db_half :: "gymnastics list" where
  "db_half =
     [mk_catalog [mk_session ''Mon'' ''4:00pm'' (5 / 2)
        [mk_signee ''ana'' ''lee'', mk_signee ''ben'' ''kim'']]]"

definition db_half_cy :: "gymnastics list" where
  "db_half_cy =
     [mk_catalog [mk_session ''Mon'' ''4:00pm'' (5 / 2)
        [mk_signee ''ana'' ''lee'', mk_signee ''ben'' ''kim'', mk_signee ''cy'' ''fox'']]]"

text \<open>What \<^verbatim>\<open>GET /classes\<close> is to show of a catalog: its fields, with each list of signees as its length.\<close>

definition shows_counts :: "gymnastics \<Rightarrow> catalog_json \<Rightarrow> bool" where
  "shows_counts doc j =
     (j_season j = season doc
      \<and> list_all2
           (\<lambda>c jc. j_name jc = name c \<and> j_class_id jc = class_id c
              \<and> list_all2
                   (\<lambda>s js. j_day js = day s \<and> j_time js = time s
                      \<and> j_maxSignups js = maxSignups s \<and> j_price js = price s
                      \<and> j_signees js = length (signees s))
                   (sessions c) (j_sessions jc))
           (classes doc) (j_classes j))"

definition upcoming_sample :: "gymnastics list" where
  "upcoming_sample =
     [\<lparr>classes = [\<lparr>name = ''Trampoline'', sessions = [mk_session ''Sat'' ''9:00am'' 8 []],
                    class_id = ''trampoline''\<rparr>],
       season = ''Winter''\<rparr>]"

definition events_sample :: "event list" where
  "events_sample =
     [\<lparr>event_name = ''Meet'', date = 300, duration = 2\<rparr>,
      \<lparr>event_name = ''Open day'', date = 100, duration = 3\<rparr>,
      \<lparr>event_name = ''Camp'', date = 200, duration = 5\<rparr>]"

lemmas eval_defs =
  class_signup_def handler_def sanitize_def validation_errors_def std_libs_def trim_def
  is_space_def escape_def escape_char_def isLength_def digits_phone_def findOne_def
  decode_escaped_def entities_def toLowerCase_def lower_char_def query_matches_def
  push_signee_def push_class_def push_session_def cast_signee_def checked_session_def
  signed_up_def mk_session_def mk_signee_def mk_catalog_def mk_body_def valid_def
  decodedClassName_def given_day_def given_time_def given_signee_def db_none_def db_ana_def
  db_full_def signup_for_def db_twin_def db_twin_ana_def db_slash_def db_slash_both_def
  db_slash_both_ana_def db_half_def db_half_cy_def db_listed_def db_listed_ana_def
  matching_sessions_def count_child_def

section \<open>Lemmas on the library functions and the handler\<close>

lemma lower_char_idem: "lower_char (lower_char c) = lower_char c"
  by (simp add: lower_char_def Let_def)

lemma toLowerCase_idem: "toLowerCase (toLowerCase s) = toLowerCase s"
  by (simp add: toLowerCase_def lower_char_idem)

lemma find_SomeD: "find P xs = Some x \<Longrightarrow> x \<in> set xs \<and> P x"
  by (induction xs) (auto split: if_splits)

lemma find_None_set: "find P xs = None \<longleftrightarrow> \<not> (\<exists>x\<in>set xs. P x)"
  by (induction xs) auto

lemma find_map_stable:
  "(\<And>x. x \<in> set xs \<Longrightarrow> P (f x) = P x) \<Longrightarrow> find P (map f xs) = map_option f (find P xs)"
  by (induction xs) auto

lemma handler_failure:
  "handler L flt errs b db = (r, db') \<Longrightarrow> r \<noteq> SignupSuccessful \<Longrightarrow> db' = db"
  by (auto simp: handler_def Let_def split: if_splits option.splits)

lemma query_matches_found:
  assumes "find (\<lambda>c. name c = cn) (classes doc) = Some c"
    and "find (\<lambda>s. day s = d \<and> time s = t) (sessions c) = Some s"
  shows "query_matches cn d t doc"
proof -
  from assms(1) have c: "c \<in> set (classes doc)" "name c = cn"
    by (auto dest: find_SomeD)
  from assms(2) have s: "s \<in> set (sessions c)" "day s = d" "time s = t"
    by (auto dest: find_SomeD)
  show ?thesis
    unfolding query_matches_def using c s by blast
qed

lemma handler_success:
  assumes "handler L flt errs b db = (SignupSuccessful, db')"
  obtains doc rest c s where
    "db = doc # rest" "errs = []" "flt = NoFault"
    "find (\<lambda>c. name c = he_decode L (b_className b)) (classes doc) = Some c"
    "find (\<lambda>s. day s = b_day b \<and> time s = b_time b) (sessions c) = Some s"
    "\<not> signed_up (childFirstName (b_signee b)) (childLastName (b_signee b)) s"
    "real (length (signees s)) < maxSignups s"
    "db' = push_signee (he_decode L (b_className b)) (b_day b) (b_time b) (b_signee b) doc # rest"
proof -
  from assms have e: "errs = []" and f: "flt = NoFault"
    by (auto simp: handler_def Let_def split: if_splits option.splits intro: store_fault.exhaust)
  from assms e f obtain doc rest where db: "db = doc # rest"
    by (cases db) (auto simp: handler_def findOne_def)
  from assms e f db obtain c where
    c: "find (\<lambda>c. name c = he_decode L (b_className b)) (classes doc) = Some c"
    by (auto simp: handler_def findOne_def Let_def split: option.splits)
  from assms e f db c obtain s where
    s: "find (\<lambda>s. day s = b_day b \<and> time s = b_time b) (sessions c) = Some s"
    by (auto simp: handler_def findOne_def Let_def split: option.splits)
  from assms e f db c s have
    n: "\<not> signed_up (childFirstName (b_signee b)) (childLastName (b_signee b)) s"
    and m: "real (length (signees s)) < maxSignups s"
    and r: "db' = findOneAndUpdate
                (query_matches (he_decode L (b_className b)) (b_day b) (b_time b))
                (push_signee (he_decode L (b_className b)) (b_day b) (b_time b) (b_signee b))
                (doc # rest)"
    by (auto simp: handler_def findOne_def Let_def signed_up_def split: if_splits)
  from r query_matches_found [OF c s]
  have "db' = push_signee (he_decode L (b_className b)) (b_day b) (b_time b) (b_signee b) doc # rest"
    by simp
  with db e f c s n m show ?thesis
    by (rule that)
qed

lemma class_signup_failure:
  "class_signup L flt raw db = (r, db') \<Longrightarrow> r \<noteq> SignupSuccessful \<Longrightarrow> db' = db"
  unfolding class_signup_def Let_def by (rule handler_failure)

lemma class_signup_success:
  assumes "class_signup L flt raw db = (SignupSuccessful, db')"
  obtains doc rest c s where
    "db = doc # rest" "valid L raw" "flt = NoFault"
    "find (\<lambda>c. name c = decodedClassName L raw) (classes doc) = Some c"
    "find (\<lambda>s. day s = given_day raw \<and> time s = given_time raw) (sessions c) = Some s"
    "\<not> signed_up (childFirstName (given_signee raw)) (childLastName (given_signee raw)) s"
    "real (length (signees s)) < maxSignups s"
    "db' = push_signee (decodedClassName L raw) (given_day raw) (given_time raw)
             (given_signee raw) doc # rest"
  using assms
  unfolding class_signup_def Let_def valid_def decodedClassName_def given_day_def
    given_time_def given_signee_def
  by (erule handler_success)

lemma class_signup_checked:
  assumes "valid L raw" and "flt \<noteq> FindRejects"
    and "checked_session (decodedClassName L raw) (given_day raw) (given_time raw) db = Some s"
  shows "class_signup L flt raw db =
     (if signed_up (childFirstName (given_signee raw)) (childLastName (given_signee raw)) s
        then (AlreadySignedUp, db)
      else if maxSignups s \<le> real (length (signees s)) then (SessionFull, db)
      else if flt = UpdateRejects then (ServerError, db)
      else (SignupSuccessful,
            findOneAndUpdate
              (query_matches (decodedClassName L raw) (given_day raw) (given_time raw))
              (push_signee (decodedClassName L raw) (given_day raw) (given_time raw)
                 (given_signee raw)) db))"
  using assms
  by (auto simp: class_signup_def handler_def checked_session_def valid_def Let_def
      decodedClassName_def given_day_def given_time_def given_signee_def signed_up_def
      split: option.splits)

lemma push_session_neq:
  "day s = d \<Longrightarrow> time s = t \<Longrightarrow> push_session d t g s \<noteq> s"
proof
  assume a: "day s = d" "time s = t" "push_session d t g s = s"
  then have "signees (push_session d t g s) = signees s" by simp
  with a(1,2) show False by (simp add: push_session_def)
qed

lemma push_signee_neq:
  assumes "find (\<lambda>c. name c = cn) (classes doc) = Some c"
    and "find (\<lambda>s. day s = d \<and> time s = t) (sessions c) = Some s"
  shows "push_signee cn d t g doc \<noteq> doc"
proof
  assume eq: "push_signee cn d t g doc = doc"
  from assms(1) have c: "c \<in> set (classes doc)" "name c = cn"
    by (auto dest: find_SomeD)
  from assms(2) have s: "s \<in> set (sessions c)" "day s = d" "time s = t"
    by (auto dest: find_SomeD)
  from eq have "classes (push_signee cn d t g doc) = classes doc" by simp
  then have "map (push_class cn d t g) (classes doc) = map (\<lambda>c. c) (classes doc)"
    by (simp add: push_signee_def)
  with c(1) have "push_class cn d t g c = c"
    by (simp only: map_eq_conv)
  then have "sessions (push_class cn d t g c) = sessions c" by simp
  with c(2) have "map (push_session d t g) (sessions c) = map (\<lambda>s. s) (sessions c)"
    by (simp add: push_class_def)
  with s(1) have "push_session d t g s = s"
    by (simp only: map_eq_conv)
  with push_session_neq [OF s(2,3)] show False by blast
qed

lemma eq_char_of_iff: "c = char_of n \<longleftrightarrow> take_bit 8 n = of_char c"
  using char_of_eq_iff [of n c] by auto

lemmas char_evals = char_of_eq_iff eq_char_of_iff

lemma push_session_fields [simp]:
  "day (push_session d t g s) = day s"
  "time (push_session d t g s) = time s"
  "maxSignups (push_session d t g s) = maxSignups s"
  "price (push_session d t g s) = price s"
  "signees (push_session d t g s)
     = (if day s = d \<and> time s = t then signees s @ [cast_signee g] else signees s)"
  by (simp_all add: push_session_def)

lemma push_class_fields [simp]:
  "name (push_class cn d t g c) = name c"
  "class_id (push_class cn d t g c) = class_id c"
  "sessions (push_class cn d t g c)
     = (if name c = cn then map (push_session d t g) (sessions c) else sessions c)"
  by (simp_all add: push_class_def)

lemma push_signee_fields [simp]:
  "season (push_signee cn d t g doc) = season doc"
  "classes (push_signee cn d t g doc) = map (push_class cn d t g) (classes doc)"
  by (simp_all add: push_signee_def)

lemma checked_session_push:
  assumes c: "find (\<lambda>c. name c = cn) (classes doc) = Some c"
    and s: "find (\<lambda>s. day s = d \<and> time s = t) (sessions c) = Some s"
  shows "checked_session cn d t (doc # rest) = Some s"
    and "checked_session cn d t (push_signee cn d t g doc # rest)
           = Some (s\<lparr>signees := signees s @ [cast_signee g]\<rparr>)"
proof -
  show "checked_session cn d t (doc # rest) = Some s"
    using c s by (simp add: checked_session_def findOne_def)
  from c have cn: "name c = cn" by (auto dest: find_SomeD)
  from s have dt: "day s = d" "time s = t" by (auto dest: find_SomeD)
  have fc: "find (\<lambda>c. name c = cn) (map (push_class cn d t g) (classes doc))
              = Some (push_class cn d t g c)"
    using c by (simp add: find_map_stable)
  have fs: "find (\<lambda>s. day s = d \<and> time s = t) (map (push_session d t g) (sessions c))
              = Some (push_session d t g s)"
    using s by (simp add: find_map_stable)
  have "push_session d t g s = s\<lparr>signees := signees s @ [cast_signee g]\<rparr>"
    using dt by (simp add: push_session_def)
  with fc fs cn
  show "checked_session cn d t (push_signee cn d t g doc # rest)
           = Some (s\<lparr>signees := signees s @ [cast_signee g]\<rparr>)"
    by (simp add: checked_session_def findOne_def)
qed

lemma class_signup_no_class:
  assumes "valid L raw" and "flt \<noteq> FindRejects" and "findOne db = Some doc"
    and "find (\<lambda>c. name c = decodedClassName L raw) (classes doc) = None"
  shows "class_signup L flt raw db = (ClassNotFound, db)"
  using assms
  by (simp add: class_signup_def handler_def valid_def decodedClassName_def Let_def)

lemma class_signup_no_session:
  assumes "valid L raw" and "flt \<noteq> FindRejects" and "findOne db = Some doc"
    and "find (\<lambda>c. name c = decodedClassName L raw) (classes doc) = Some c"
    and "find (\<lambda>s. day s = given_day raw \<and> time s = given_time raw) (sessions c) = None"
  shows "class_signup L flt raw db = (SessionNotFound, db)"
  using assms
  by (simp add: class_signup_def handler_def valid_def decodedClassName_def Let_def
      given_day_def given_time_def)

lemma distinct_map_eqD:
  "distinct (map f xs) \<Longrightarrow> x \<in> set xs \<Longrightarrow> y \<in> set xs \<Longrightarrow> f x = f y \<Longrightarrow> x = y"
  by (auto simp: distinct_map dest: inj_onD)

lemma well_keyed_push [simp]: "well_keyed (push_signee cn d t g doc) = well_keyed doc"
proof -
  have n: "map name (map (push_class cn d t g) (classes doc)) = map name (classes doc)"
    by simp
  have k: "map (\<lambda>s. (day s, time s)) (sessions (push_class cn d t g c))
             = map (\<lambda>s. (day s, time s)) (sessions c)" for c
    by simp
  show ?thesis
    unfolding well_keyed_def push_signee_fields n
    by (simp only: set_map ball_simps k)
qed

lemma whole_caps_push [simp]: "whole_caps (push_signee cn d t g doc) = whole_caps doc"
  by (auto simp: whole_caps_def)

lemma whole_room:
  assumes "real n < m" and "m = of_int \<lfloor>m\<rfloor>"
  shows "real (Suc n) \<le> m"
proof -
  from assms have "real n < of_int \<lfloor>m\<rfloor>" by simp
  then have "int n < \<lfloor>m\<rfloor>" by linarith
  then have "int (Suc n) \<le> \<lfloor>m\<rfloor>" by simp
  then have "real_of_int (int (Suc n)) \<le> of_int \<lfloor>m\<rfloor>" by (simp only: of_int_le_iff)
  with assms(2) show ?thesis by simp
qed

lemma cap_ok_push:
  assumes wk: "well_keyed doc" and wc: "whole_caps doc" and ok: "cap_ok doc"
    and c: "find (\<lambda>c. name c = cn) (classes doc) = Some c"
    and s: "find (\<lambda>s. day s = d \<and> time s = t) (sessions c) = Some s"
    and room: "real (length (signees s)) < maxSignups s"
  shows "cap_ok (push_signee cn d t g doc)"
  unfolding cap_ok_def
proof (intro ballI)
  fix c' s'
  assume c': "c' \<in> set (classes (push_signee cn d t g doc))"
    and s': "s' \<in> set (sessions c')"
  from c have cin: "c \<in> set (classes doc)" and cn: "name c = cn"
    by (auto dest: find_SomeD)
  from s have sin: "s \<in> set (sessions c)" and dt: "day s = d" "time s = t"
    by (auto dest: find_SomeD)
  from c' obtain c0 where c0: "c0 \<in> set (classes doc)" and c'eq: "c' = push_class cn d t g c0"
    by auto
  show "real (length (signees s')) \<le> maxSignups s'"
  proof (cases "name c0 = cn")
    case False
    with s' c'eq have "s' \<in> set (sessions c0)" by simp
    with ok c0 show ?thesis by (auto simp: cap_ok_def)
  next
    case True
    from wk have dn: "distinct (map name (classes doc))" by (simp add: well_keyed_def)
    from True cn have "name c0 = name c" by simp
    with dn c0 cin have c0eq: "c0 = c" by (rule distinct_map_eqD)
    from s' c'eq True obtain s0 where s0: "s0 \<in> set (sessions c0)"
      and s'eq: "s' = push_session d t g s0"
      by auto
    from ok c0 s0 have old: "real (length (signees s0)) \<le> maxSignups s0"
      by (auto simp: cap_ok_def)
    show ?thesis
    proof (cases "day s0 = d \<and> time s0 = t")
      case False
      with s'eq old show ?thesis by (auto simp: push_session_def)
    next
      case True
      from wk cin have ds: "distinct (map (\<lambda>s. (day s, time s)) (sessions c))"
        by (simp add: well_keyed_def)
      from True dt have "(day s0, time s0) = (day s, time s)" by simp
      with ds s0 sin c0eq have "s0 = s"
        by (auto dest: distinct_map_eqD [where f = "\<lambda>s. (day s, time s)"])
      from wc cin sin have "maxSignups s = of_int \<lfloor>maxSignups s\<rfloor>"
        by (auto simp: whole_caps_def)
      from whole_room [OF room this] s'eq \<open>s0 = s\<close> dt show ?thesis by simp
    qed
  qed
qed

lemma class_signup_keeps_caps:
  assumes "list_all well_keyed db" and "list_all whole_caps db" and "list_all cap_ok db"
  shows "list_all well_keyed (snd (class_signup L flt raw db))
       \<and> list_all whole_caps (snd (class_signup L flt raw db))
       \<and> list_all cap_ok (snd (class_signup L flt raw db))"
proof (cases "fst (class_signup L flt raw db) = SignupSuccessful")
  case False
  then have "snd (class_signup L flt raw db) = db"
    by (metis class_signup_failure prod.collapse)
  with assms show ?thesis by simp
next
  case True
  then have "class_signup L flt raw db = (SignupSuccessful, snd (class_signup L flt raw db))"
    by (metis prod.collapse)
  then obtain doc rest c s where
    db: "db = doc # rest"
    and c: "find (\<lambda>c. name c = decodedClassName L raw) (classes doc) = Some c"
    and s: "find (\<lambda>s. day s = given_day raw \<and> time s = given_time raw) (sessions c) = Some s"
    and room: "real (length (signees s)) < maxSignups s"
    and db': "snd (class_signup L flt raw db)
               = push_signee (decodedClassName L raw) (given_day raw) (given_time raw)
                   (given_signee raw) doc # rest"
    by (rule class_signup_success)
  from assms db have "well_keyed doc" "whole_caps doc" "cap_ok doc" by simp_all
  from cap_ok_push [OF this c s room] assms db db' show ?thesis by simp
qed

lemma is_space_lower [simp]: "is_space (lower_char c) = is_space c"
  by (simp add: is_space_def lower_char_def Let_def)

lemma lower_dropWhile:
  "map lower_char (dropWhile is_space xs) = dropWhile is_space (map lower_char xs)"
  by (induction xs) simp_all

lemma toLowerCase_trim: "toLowerCase (trim s) = trim (toLowerCase s)"
proof -
  have "map lower_char (rev (dropWhile is_space (rev (dropWhile is_space s))))
          = rev (map lower_char (dropWhile is_space (rev (dropWhile is_space s))))"
    by (simp only: rev_map)
  also have "\<dots> = rev (dropWhile is_space (map lower_char (rev (dropWhile is_space s))))"
    by (simp only: lower_dropWhile)
  also have "\<dots> = rev (dropWhile is_space (rev (map lower_char (dropWhile is_space s))))"
    by (simp only: rev_map)
  also have "\<dots> = rev (dropWhile is_space (rev (dropWhile is_space (map lower_char s))))"
    by (simp only: lower_dropWhile)
  finally show ?thesis
    by (simp only: toLowerCase_def trim_def)
qed

lemma lower_char_eqD:
  assumes "lower_char c = d" and "(of_char d :: nat) < 97"
  shows "c = d"
proof (cases "(65 \<le> (of_char c :: nat) \<and> (of_char c :: nat) \<le> 90)
     \<or> (192 \<le> (of_char c :: nat) \<and> (of_char c :: nat) \<le> 222 \<and> (of_char c :: nat) \<noteq> 215)")
  case False
  with assms(1) show ?thesis by (simp add: lower_char_def Let_def)
next
  case True
  with assms(1) have "d = char_of ((of_char c :: nat) + 32)"
    by (simp add: lower_char_def Let_def)
  then have "(of_char d :: nat) = (of_char c + 32) mod 256" by simp
  with True have "(of_char d :: nat) = of_char c + 32" by auto
  with True assms(2) show ?thesis by linarith
qed

lemma lower_escape_char:
  "map lower_char (escape_char (lower_char c)) = map lower_char (escape_char c)"
proof (cases "escape_char (lower_char c) = [lower_char c]")
  case False
  then have "lower_char c \<in> {CHR ''&'', CHR 0x22, CHR 0x27, CHR ''<'', CHR ''>'', CHR ''/'',
      CHR 0x5C, CHR 0x60}"
    by (simp add: escape_char_def split: if_splits)
  then have "(of_char (lower_char c) :: nat) < 97" by auto
  with lower_char_eqD [of c "lower_char c"] have "c = lower_char c" by simp
  then show ?thesis by simp
next
  case True
  show ?thesis
  proof (cases "escape_char c = [c]")
    case plain: True
    with True show ?thesis by (simp add: lower_char_idem)
  next
    case False
    then have "c \<in> {CHR ''&'', CHR 0x22, CHR 0x27, CHR ''<'', CHR ''>'', CHR ''/'',
        CHR 0x5C, CHR 0x60}"
      by (simp add: escape_char_def split: if_splits)
    then have "lower_char c = c"
      by (auto simp: lower_char_def)
    then show ?thesis by simp
  qed
qed

lemma toLowerCase_escape: "toLowerCase (escape (toLowerCase s)) = toLowerCase (escape s)"
  by (induction s) (simp_all add: toLowerCase_def escape_def lower_escape_char)

lemma lower_sanitized:
  assumes "toLowerCase a = toLowerCase b"
  shows "toLowerCase (escape (trim a)) = toLowerCase (escape (trim b))"
proof -
  have e: "toLowerCase (escape (trim x)) = toLowerCase (escape (trim (toLowerCase x)))" for x
    using toLowerCase_escape [of "trim x"] by (simp add: toLowerCase_trim)
  have "toLowerCase (escape (trim a)) = toLowerCase (escape (trim (toLowerCase a)))"
    by (rule e)
  also have "\<dots> = toLowerCase (escape (trim (toLowerCase b)))"
    by (simp only: assms)
  also have "\<dots> = toLowerCase (escape (trim b))"
    by (rule e [symmetric])
  finally show ?thesis .
qed

lemma cast_signee_fields [simp]:
  "childFirstName (cast_signee g) = toLowerCase (childFirstName g)"
  "childLastName (cast_signee g) = toLowerCase (childLastName g)"
  "parentFirstName (cast_signee g) = toLowerCase (parentFirstName g)"
  "parentLastName (cast_signee g) = toLowerCase (parentLastName g)"
  "parentPhoneNumber (cast_signee g) = parentPhoneNumber g"
  by (simp_all add: cast_signee_def)

lemma not_signed_up_filter:
  "\<not> signed_up f l s \<Longrightarrow>
     filter (\<lambda>g. childFirstName g = toLowerCase f \<and> childLastName g = toLowerCase l) (signees s) = []"
  by (auto simp: signed_up_def list_ex_iff filter_empty_conv)

lemma lower_names_cast: "lower_names (cast_signee g)"
  by (simp add: lower_names_def toLowerCase_idem)

lemma all_signees_Cons:
  "all_signees (doc # rest) = all_signees [doc] \<union> all_signees rest"
  by (simp add: all_signees_def)

lemma signees_push_session:
  "x \<in> set (signees (push_session d t g s)) \<Longrightarrow> x = cast_signee g \<or> x \<in> set (signees s)"
  by (cases "day s = d \<and> time s = t") (auto simp: push_session_def)

lemma signees_push_class:
  assumes "s' \<in> set (sessions (push_class cn d t g c))" and "x \<in> set (signees s')"
  shows "x = cast_signee g \<or> (\<exists>s \<in> set (sessions c). x \<in> set (signees s))"
proof (cases "name c = cn")
  case False
  with assms show ?thesis by (auto simp: push_class_def)
next
  case True
  with assms(1) obtain s where s: "s \<in> set (sessions c)" and "s' = push_session d t g s"
    by (auto simp: push_class_def)
  with assms(2) signees_push_session [of x d t g s] show ?thesis by blast
qed

lemma all_signees_push:
  "all_signees [push_signee cn d t g doc] \<subseteq> insert (cast_signee g) (all_signees [doc])"
proof
  fix x
  assume "x \<in> all_signees [push_signee cn d t g doc]"
  then have "\<exists>c \<in> set (classes doc). \<exists>s' \<in> set (sessions (push_class cn d t g c)).
      x \<in> set (signees s')"
    by (simp add: all_signees_def del: push_class_fields)
  then obtain c s' where c: "c \<in> set (classes doc)"
    and s': "s' \<in> set (sessions (push_class cn d t g c))" and x: "x \<in> set (signees s')"
    by blast
  from signees_push_class [OF s' x]
  have "x = cast_signee g \<or> (\<exists>s \<in> set (sessions c). x \<in> set (signees s))" .
  with c show "x \<in> insert (cast_signee g) (all_signees [doc])"
    by (auto simp: all_signees_def)
qed

lemma class_signup_signees:
  "all_signees (snd (class_signup L flt raw db))
     \<subseteq> insert (cast_signee (given_signee raw)) (all_signees db)"
proof (cases "fst (class_signup L flt raw db) = SignupSuccessful")
  case False
  then have "snd (class_signup L flt raw db) = db"
    by (metis class_signup_failure prod.collapse)
  then show ?thesis by auto
next
  case True
  let ?cn = "decodedClassName L raw" and ?d = "given_day raw" and ?t = "given_time raw"
    and ?g = "given_signee raw"
  from True have "class_signup L flt raw db = (SignupSuccessful, snd (class_signup L flt raw db))"
    by (metis prod.collapse)
  then obtain doc rest where db: "db = doc # rest"
    and db': "snd (class_signup L flt raw db) = push_signee ?cn ?d ?t ?g doc # rest"
    by (rule class_signup_success)
  have "all_signees (push_signee ?cn ?d ?t ?g doc # rest)
          = all_signees [push_signee ?cn ?d ?t ?g doc] \<union> all_signees rest"
    by (rule all_signees_Cons)
  also have "\<dots> \<subseteq> insert (cast_signee ?g) (all_signees [doc]) \<union> all_signees rest"
    using all_signees_push [of ?cn ?d ?t ?g doc] by (rule Un_mono) simp
  also have "\<dots> = insert (cast_signee ?g) (all_signees (doc # rest))"
    using all_signees_Cons [of doc rest] by simp
  finally have "all_signees (push_signee ?cn ?d ?t ?g doc # rest)
      \<subseteq> insert (cast_signee ?g) (all_signees (doc # rest))" .
  then show ?thesis
    unfolding db' unfolding db .
qed

lemma run_signees:
  "g \<in> all_signees (run L rs db) \<Longrightarrow> g \<in> all_signees db \<or> lower_names g"
proof (induction rs arbitrary: db)
  case Nil
  then show ?case by simp
next
  case (Cons r rs)
  obtain flt raw where r: "r = (flt, raw)" by (cases r)
  from Cons.prems r have "g \<in> all_signees (run L rs (snd (class_signup L flt raw db)))"
    by simp
  from Cons.IH [OF this]
  have "g \<in> all_signees (snd (class_signup L flt raw db)) \<or> lower_names g" .
  with class_signup_signees [of L flt raw db] lower_names_cast [of "given_signee raw"]
  show ?case by auto
qed

lemma find_distinct_key:
  "distinct (map f xs) \<Longrightarrow> x \<in> set xs \<Longrightarrow> find (\<lambda>y. f y = f x) xs = Some x"
  by (induction xs) (auto simp: image_iff)

lemma filter_distinct_key:
  "distinct (map f xs) \<Longrightarrow> x \<in> set xs \<Longrightarrow> filter (\<lambda>y. f y = f x) xs = [x]"
  by (induction xs) (auto simp: image_iff filter_empty_conv)

lemma checked_session_member:
  assumes wk: "well_keyed doc"
    and c: "c \<in> set (classes doc)" "name c = cn"
    and s: "s \<in> set (sessions c)" "day s = d" "time s = t"
  shows "find (\<lambda>c. name c = cn) (classes doc) = Some c"
    and "find (\<lambda>s. day s = d \<and> time s = t) (sessions c) = Some s"
    and "checked_session cn d t (doc # rest) = Some s"
    and "matching_sessions cn d t doc = [s]"
proof -
  from wk have dn: "distinct (map name (classes doc))" by (simp add: well_keyed_def)
  from wk c(1) have ds: "distinct (map (\<lambda>s. (day s, time s)) (sessions c))"
    by (simp add: well_keyed_def)
  from find_distinct_key [OF dn c(1)] c(2)
  show fc: "find (\<lambda>c. name c = cn) (classes doc) = Some c" by simp
  from find_distinct_key [OF ds s(1)] s(2,3)
  show fs: "find (\<lambda>s. day s = d \<and> time s = t) (sessions c) = Some s" by simp
  from fc fs show "checked_session cn d t (doc # rest) = Some s"
    by (simp add: checked_session_def findOne_def)
  from filter_distinct_key [OF dn c(1)] c(2)
  have a: "filter (\<lambda>c. name c = cn) (classes doc) = [c]" by simp
  from filter_distinct_key [OF ds s(1)] s(2,3)
  have b: "filter (\<lambda>s. day s = d \<and> time s = t) (sessions c) = [s]" by simp
  from a b show "matching_sessions cn d t doc = [s]"
    by (simp add: matching_sessions_def)
qed

lemma matching_sessions_push:
  "matching_sessions cn d t (push_signee cn d t g doc)
     = map (\<lambda>s. s\<lparr>signees := signees s @ [cast_signee g]\<rparr>) (matching_sessions cn d t doc)"
proof -
  have s: "filter (\<lambda>s. day s = d \<and> time s = t) (map (push_session d t g) ss)
             = map (\<lambda>s. s\<lparr>signees := signees s @ [cast_signee g]\<rparr>)
                 (filter (\<lambda>s. day s = d \<and> time s = t) ss)" for ss
    by (induction ss) (simp_all add: push_session_def)
  have c: "concat (map (\<lambda>c. filter (\<lambda>s. day s = d \<and> time s = t) (sessions c))
                 (filter (\<lambda>c. name c = cn) (map (push_class cn d t g) cs)))
         = map (\<lambda>s. s\<lparr>signees := signees s @ [cast_signee g]\<rparr>)
             (concat (map (\<lambda>c. filter (\<lambda>s. day s = d \<and> time s = t) (sessions c))
                 (filter (\<lambda>c. name c = cn) cs)))" for cs
    by (induction cs) (simp_all add: s)
  show ?thesis
    by (simp add: matching_sessions_def c)
qed

section \<open>Claims about POST /class-signup\<close>

text \<open>
  C1, as stated, where two sessions of the class share a day and time: the capacity of the
  first is checked, the signee is appended to both, and the second, full before, then
  holds two signees for one place.
\<close>

theorem capacity_twin_counterexample:
  "list_all cap_ok db_twin
   \<and> class_signup std_libs NoFault (signup_for ''Ana'' ''Lee'') db_twin
       = (SignupSuccessful, db_twin_ana)
   \<and> \<not> list_all cap_ok db_twin_ana"
  by (simp add: eval_defs char_evals cap_ok_def)

text \<open>
  C1, amended. Take a collection where class names are distinct, the sessions of a class
  have distinct (day, time) pairs and every \<open>maxSignups\<close> is a whole number. If every
  session holds at most \<open>maxSignups\<close> signees, then so it is after any sequence of
  requests handled one after the other.
\<close>

theorem capacity_kept:
  assumes "list_all well_keyed db" and "list_all whole_caps db" and "list_all cap_ok db"
  shows "list_all cap_ok (run L rs db)"
  using assms
proof (induction rs arbitrary: db)
  case Nil
  then show ?case by simp
next
  case (Cons r rs)
  obtain flt raw where r: "r = (flt, raw)" by (cases r)
  from class_signup_keeps_caps [OF Cons.prems, of L flt raw] Cons.IH r
  show ?case by simp
qed

theorem capacity_kept_witness:
  "list_all well_keyed db_none \<and> list_all whole_caps db_none \<and> list_all cap_ok db_none
   \<and> run std_libs [(NoFault, signup_for ''Ana'' ''Lee''), (NoFault, signup_for ''ana'' ''lee''),
        (NoFault, signup_for ''Ben'' ''Kim''), (NoFault, signup_for ''Cy'' ''Fox'')] db_none = db_full
   \<and> list_all cap_ok db_full"
proof -
  have a: "list_all well_keyed db_none" "list_all whole_caps db_none" "list_all cap_ok db_none"
    by (simp_all add: db_none_def mk_catalog_def mk_session_def well_keyed_def whole_caps_def
        cap_ok_def)
  have r: "run std_libs [(NoFault, signup_for ''Ana'' ''Lee''), (NoFault, signup_for ''ana'' ''lee''),
        (NoFault, signup_for ''Ben'' ''Kim''), (NoFault, signup_for ''Cy'' ''Fox'')] db_none = db_full"
    by (simp add: eval_defs char_evals)
  from capacity_kept [OF a, of std_libs] a r show ?thesis by metis
qed

text \<open>
  The condition on whole numbers is needed: with two and a half places and two signees,
  the capacity check lets a third in.
\<close>

lemma fractional_capacity_overrun:
  "list_all well_keyed db_half \<and> list_all cap_ok db_half
   \<and> class_signup std_libs NoFault (signup_for ''Cy'' ''Fox'') db_half
       = (SignupSuccessful, db_half_cy)
   \<and> \<not> list_all cap_ok db_half_cy"
  by (simp add: eval_defs char_evals cap_ok_def well_keyed_def Let_def)

text \<open>
  C2, as stated, where two sessions of the class share the day and time and the second
  lists the child already: the first, which does not, is the one checked, the request
  succeeds and the signee is appended to both, so the second then holds the pair of names
  twice. The second attempt is answered "Already signed up".
\<close>

theorem duplicate_twin_counterexample:
  "class_signup std_libs NoFault (signup_for ''Ana'' ''Lee'') db_listed
     = (SignupSuccessful, db_listed_ana)
   \<and> class_signup std_libs NoFault (signup_for ''ANA'' ''lee'') db_listed_ana
       = (AlreadySignedUp, db_listed_ana)
   \<and> matching_sessions ''Tumbling'' ''Mon'' ''4:00pm'' (hd db_listed_ana)
       = [mk_session ''Mon'' ''4:00pm'' 2 [mk_signee ''ana'' ''lee''],
          mk_session ''Mon'' ''4:00pm'' 3 [mk_signee ''ana'' ''lee'', mk_signee ''ana'' ''lee'']]
   \<and> map (count_child ''ana'' ''lee'')
         (matching_sessions ''Tumbling'' ''Mon'' ''4:00pm'' (hd db_listed_ana)) = [1, 2]"
  by (simp add: eval_defs char_evals)

text \<open>
  C2, amended. In a catalog where class names are distinct and the sessions of a class
  have distinct (day, time) pairs: after a successful request, a second valid request for
  the same class, day and time whose child first and last names equal the first's up to
  letter case is answered with 400 "Already signed up" and leaves the collection as it
  was; the request addresses one session only, the one checked, and that session holds
  exactly one signee with that pair of names.
\<close>

theorem duplicate_rejected:
  assumes catalog: "findOne db = Some doc" and wk: "well_keyed doc"
    and first: "class_signup L flt1 raw1 db = (SignupSuccessful, db1)"
    and same: "b_className raw2 = b_className raw1" "b_day raw2 = b_day raw1"
      "b_time raw2 = b_time raw1"
    and fn: "toLowerCase (childFirstName (b_signee raw2)) = toLowerCase (childFirstName (b_signee raw1))"
    and ln: "toLowerCase (childLastName (b_signee raw2)) = toLowerCase (childLastName (b_signee raw1))"
    and v2: "valid L raw2" and f2: "flt2 \<noteq> FindRejects"
  shows "class_signup L flt2 raw2 db1 = (AlreadySignedUp, db1)
       \<and> status (fst (class_signup L flt2 raw2 db1)) = 400
       \<and> message (fst (class_signup L flt2 raw2 db1)) = ''Already signed up''
       \<and> (\<exists>doc1 s1. findOne db1 = Some doc1
              \<and> matching_sessions (decodedClassName L raw1) (given_day raw1) (given_time raw1) doc1
                  = [s1]
              \<and> checked_session (decodedClassName L raw1) (given_day raw1) (given_time raw1) db1
                  = Some s1
              \<and> count_child (toLowerCase (childFirstName (given_signee raw1)))
                    (toLowerCase (childLastName (given_signee raw1))) s1 = 1)"
proof -
  let ?cn = "decodedClassName L raw1" and ?d = "given_day raw1" and ?t = "given_time raw1"
    and ?g = "given_signee raw1"
  from first obtain doc' rest c s where
    db: "db = doc' # rest"
    and c: "find (\<lambda>c. name c = ?cn) (classes doc') = Some c"
    and s: "find (\<lambda>s. day s = ?d \<and> time s = ?t) (sessions c) = Some s"
    and fresh: "\<not> signed_up (childFirstName ?g) (childLastName ?g) s"
    and db1: "db1 = push_signee ?cn ?d ?t ?g doc' # rest"
    by (rule class_signup_success)
  from catalog db have doc: "doc' = doc" by (simp add: findOne_def)
  let ?doc1 = "push_signee ?cn ?d ?t ?g doc"
  let ?s1 = "s\<lparr>signees := signees s @ [cast_signee ?g]\<rparr>"
  from c have cin: "c \<in> set (classes doc)" "name c = ?cn"
    unfolding doc by (auto dest: find_SomeD)
  from s have sin: "s \<in> set (sessions c)" "day s = ?d" "time s = ?t"
    by (auto dest: find_SomeD)
  have only: "matching_sessions ?cn ?d ?t doc = [s]"
    using wk cin sin by (rule checked_session_member(4))
  have one1: "findOne db1 = Some ?doc1"
    by (simp add: db1 doc findOne_def)
  have only1: "matching_sessions ?cn ?d ?t ?doc1 = [?s1]"
    by (simp add: matching_sessions_push only)
  have chk: "checked_session ?cn ?d ?t db1 = Some ?s1"
    unfolding db1 by (rule checked_session_push(2) [OF c s])
  have key: "decodedClassName L raw2 = ?cn" "given_day raw2 = ?d" "given_time raw2 = ?t"
    using same by (simp_all add: decodedClassName_def given_day_def given_time_def sanitize_def)
  have low: "toLowerCase (childFirstName (given_signee raw2)) = toLowerCase (childFirstName ?g)"
    "toLowerCase (childLastName (given_signee raw2)) = toLowerCase (childLastName ?g)"
    using lower_sanitized [OF fn] lower_sanitized [OF ln]
    by (simp_all add: given_signee_def sanitize_def)
  have dup: "signed_up (childFirstName (given_signee raw2)) (childLastName (given_signee raw2)) ?s1"
    by (simp add: signed_up_def low)
  from chk have chk2: "checked_session (decodedClassName L raw2) (given_day raw2)
      (given_time raw2) db1 = Some ?s1"
    by (simp only: key)
  have res: "class_signup L flt2 raw2 db1 = (AlreadySignedUp, db1)"
    using class_signup_checked [OF v2 f2 chk2] dup by simp
  have cnt: "count_child (toLowerCase (childFirstName ?g)) (toLowerCase (childLastName ?g)) ?s1 = 1"
    using not_signed_up_filter [OF fresh] by (simp add: count_child_def)
  from one1 only1 chk cnt
  have "\<exists>doc1 s1. findOne db1 = Some doc1
          \<and> matching_sessions ?cn ?d ?t doc1 = [s1]
          \<and> checked_session ?cn ?d ?t db1 = Some s1
          \<and> count_child (toLowerCase (childFirstName ?g)) (toLowerCase (childLastName ?g)) s1 = 1"
    by blast
  with res show ?thesis by simp
qed

theorem duplicate_rejected_witness:
  "findOne db_none = Some (mk_catalog [mk_session ''Mon'' ''4:00pm'' 2 []])
   \<and> well_keyed (mk_catalog [mk_session ''Mon'' ''4:00pm'' 2 []])
   \<and> class_signup std_libs NoFault (signup_for ''Ana'' ''Lee'') db_none = (SignupSuccessful, db_ana)
   \<and> toLowerCase ''ANA'' = toLowerCase ''Ana'' \<and> toLowerCase ''lee'' = toLowerCase ''Lee''
   \<and> valid std_libs (signup_for ''ANA'' ''lee'') \<and> NoFault \<noteq> FindRejects
   \<and> class_signup std_libs NoFault (signup_for ''ANA'' ''lee'') db_ana = (AlreadySignedUp, db_ana)
   \<and> status (fst (class_signup std_libs NoFault (signup_for ''ANA'' ''lee'') db_ana)) = 400
   \<and> message (fst (class_signup std_libs NoFault (signup_for ''ANA'' ''lee'') db_ana))
       = ''Already signed up''
   \<and> matching_sessions ''Tumbling'' ''Mon'' ''4:00pm'' (hd db_ana)
       = [mk_session ''Mon'' ''4:00pm'' 2 [mk_signee ''ana'' ''lee'']]
   \<and> count_child ''ana'' ''lee'' (mk_session ''Mon'' ''4:00pm'' 2 [mk_signee ''ana'' ''lee'']) = 1"
proof -
  let ?a = "signup_for ''Ana'' ''Lee''" and ?b = "signup_for ''ANA'' ''lee''"
  let ?doc = "mk_catalog [mk_session ''Mon'' ''4:00pm'' 2 []]"
  have cat: "findOne db_none = Some ?doc" by (simp add: db_none_def findOne_def)
  have wk: "well_keyed ?doc" by (simp add: well_keyed_def mk_catalog_def mk_session_def)
  have first: "class_signup std_libs NoFault ?a db_none = (SignupSuccessful, db_ana)"
    by (simp add: eval_defs char_evals)
  have same: "b_className ?b = b_className ?a" "b_day ?b = b_day ?a" "b_time ?b = b_time ?a"
    by (simp_all add: signup_for_def mk_body_def)
  have fn: "toLowerCase (childFirstName (b_signee ?b)) = toLowerCase (childFirstName (b_signee ?a))"
    and ln: "toLowerCase (childLastName (b_signee ?b)) = toLowerCase (childLastName (b_signee ?a))"
    by (simp_all add: eval_defs char_evals)
  have v: "valid std_libs ?b" by (simp add: eval_defs char_evals)
  have f: "NoFault \<noteq> FindRejects" by simp
  have q: "toLowerCase ''ANA'' = toLowerCase ''Ana''" "toLowerCase ''lee'' = toLowerCase ''Lee''"
    by (simp_all add: eval_defs char_evals)
  have m: "matching_sessions ''Tumbling'' ''Mon'' ''4:00pm'' (hd db_ana)
       = [mk_session ''Mon'' ''4:00pm'' 2 [mk_signee ''ana'' ''lee'']]"
    by (simp add: eval_defs char_evals)
  have n: "count_child ''ana'' ''lee'' (mk_session ''Mon'' ''4:00pm'' 2 [mk_signee ''ana'' ''lee'']) = 1"
    by (simp add: eval_defs char_evals)
  from duplicate_rejected [OF cat wk first same fn ln v f] cat wk first q v f m n
  show ?thesis by simp
qed

text \<open>
  C3, as stated, at a full session where the child is on the list already: the duplicate
  check runs first (line 188), and the answer is "Already signed up", not "Session is
  full".
\<close>

theorem full_session_duplicate_counterexample:
  "valid std_libs (signup_for ''Ana'' ''Lee'')
   \<and> checked_session ''Tumbling'' ''Mon'' ''4:00pm'' db_full
       = Some (mk_session ''Mon'' ''4:00pm'' 2 [mk_signee ''ana'' ''lee'', mk_signee ''ben'' ''kim''])
   \<and> maxSignups (mk_session ''Mon'' ''4:00pm'' 2 [mk_signee ''ana'' ''lee'', mk_signee ''ben'' ''kim''])
       \<le> real (length (signees
            (mk_session ''Mon'' ''4:00pm'' 2 [mk_signee ''ana'' ''lee'', mk_signee ''ben'' ''kim''])))
   \<and> class_signup std_libs NoFault (signup_for ''Ana'' ''Lee'') db_full = (AlreadySignedUp, db_full)
   \<and> fst (class_signup std_libs NoFault (signup_for ''Ana'' ''Lee'') db_full) \<noteq> SessionFull"
  by (simp add: eval_defs char_evals)

text \<open>
  C3, amended. In a catalog where class names are distinct and the sessions of a class
  have distinct (day, time) pairs, take any session that holds at least \<open>maxSignups\<close>
  signees. A valid request for its class, day and time is answered with status 400 and
  nothing is stored: with "Session is full" when the child is not on the list yet, with
  "Already signed up" when it is.
\<close>

theorem full_session_rejects:
  assumes v: "valid L raw" and f: "flt \<noteq> FindRejects"
    and catalog: "findOne db = Some doc" and wk: "well_keyed doc"
    and c: "c \<in> set (classes doc)" "name c = decodedClassName L raw"
    and s: "s \<in> set (sessions c)" "day s = given_day raw" "time s = given_time raw"
    and full: "maxSignups s \<le> real (length (signees s))"
  shows "class_signup L flt raw db =
           (if signed_up (childFirstName (given_signee raw)) (childLastName (given_signee raw)) s
            then AlreadySignedUp else SessionFull, db)
         \<and> status (fst (class_signup L flt raw db)) = 400
         \<and> (\<not> signed_up (childFirstName (given_signee raw)) (childLastName (given_signee raw)) s
              \<longrightarrow> message (fst (class_signup L flt raw db)) = ''Session is full'')"
proof -
  from catalog obtain rest where db: "db = doc # rest"
    by (cases db) (simp_all add: findOne_def)
  have "checked_session (decodedClassName L raw) (given_day raw) (given_time raw) db = Some s"
    unfolding db using wk c s by (rule checked_session_member(3))
  from class_signup_checked [OF v f this] full show ?thesis by simp
qed

theorem full_session_rejects_witness:
  "valid std_libs (signup_for ''Cy'' ''Fox'') \<and> NoFault \<noteq> FindRejects
   \<and> findOne db_full = Some (mk_catalog [mk_session ''Mon'' ''4:00pm'' 2
        [mk_signee ''ana'' ''lee'', mk_signee ''ben'' ''kim'']])
   \<and> well_keyed (mk_catalog [mk_session ''Mon'' ''4:00pm'' 2
        [mk_signee ''ana'' ''lee'', mk_signee ''ben'' ''kim'']])
   \<and> matching_sessions ''Tumbling'' ''Mon'' ''4:00pm'' (hd db_full)
       = [mk_session ''Mon'' ''4:00pm'' 2 [mk_signee ''ana'' ''lee'', mk_signee ''ben'' ''kim'']]
   \<and> maxSignups (mk_session ''Mon'' ''4:00pm'' 2 [mk_signee ''ana'' ''lee'', mk_signee ''ben'' ''kim''])
       \<le> real (length (signees
            (mk_session ''Mon'' ''4:00pm'' 2 [mk_signee ''ana'' ''lee'', mk_signee ''ben'' ''kim''])))
   \<and> \<not> signed_up ''Cy'' ''Fox''
         (mk_session ''Mon'' ''4:00pm'' 2 [mk_signee ''ana'' ''lee'', mk_signee ''ben'' ''kim''])
   \<and> class_signup std_libs NoFault (signup_for ''Cy'' ''Fox'') db_full = (SessionFull, db_full)
   \<and> status (fst (class_signup std_libs NoFault (signup_for ''Cy'' ''Fox'') db_full)) = 400
   \<and> message (fst (class_signup std_libs NoFault (signup_for ''Cy'' ''Fox'') db_full))
       = ''Session is full''"
proof -
  let ?s = "mk_session ''Mon'' ''4:00pm'' 2 [mk_signee ''ana'' ''lee'', mk_signee ''ben'' ''kim'']"
  let ?c = "\<lparr>name = ''Tumbling'', sessions = [?s], class_id = ''tumbling''\<rparr>"
  let ?doc = "mk_catalog [?s]"
  let ?raw = "signup_for ''Cy'' ''Fox''"
  have v: "valid std_libs ?raw"
    by (simp add: eval_defs char_evals)
  have f: "NoFault \<noteq> FindRejects" by simp
  have cat: "findOne db_full = Some ?doc" by (simp add: db_full_def findOne_def)
  have wk: "well_keyed ?doc" by (simp add: well_keyed_def mk_catalog_def mk_session_def)
  have d: "decodedClassName std_libs ?raw = ''Tumbling''"
    "given_day ?raw = ''Mon''"
    "given_time ?raw = ''4:00pm''"
    "childFirstName (given_signee ?raw) = ''Cy''"
    "childLastName (given_signee ?raw) = ''Fox''"
    by (simp_all add: eval_defs char_evals)
  have c: "?c \<in> set (classes ?doc)" "name ?c = decodedClassName std_libs ?raw"
    by (simp_all add: d mk_catalog_def)
  have s: "?s \<in> set (sessions ?c)" "day ?s = given_day ?raw" "time ?s = given_time ?raw"
    by (simp_all add: d mk_session_def)
  have m: "maxSignups ?s \<le> real (length (signees ?s))"
    by (simp add: eval_defs char_evals)
  have n: "\<not> signed_up ''Cy'' ''Fox'' ?s"
    by (simp add: eval_defs char_evals)
  have ms: "matching_sessions ''Tumbling'' ''Mon'' ''4:00pm'' (hd db_full) = [?s]"
    by (simp add: eval_defs char_evals)
  from full_session_rejects [OF v f cat wk c s m] v cat wk ms m n show ?thesis
    by (simp add: d)
qed

text \<open>
  The condition on distinct pairs is needed: where two sessions share the day and time
  and the second is full, the first is the one checked and the second grows all the same.
\<close>

lemma full_twin_session_grows:
  "valid std_libs (signup_for ''Ana'' ''Lee'')
   \<and> matching_sessions ''Tumbling'' ''Mon'' ''4:00pm'' (hd db_twin)
       = [mk_session ''Mon'' ''4:00pm'' 2 [],
          mk_session ''Mon'' ''4:00pm'' 1 [mk_signee ''zoe'' ''ray'']]
   \<and> maxSignups (mk_session ''Mon'' ''4:00pm'' 1 [mk_signee ''zoe'' ''ray''])
       \<le> real (length (signees (mk_session ''Mon'' ''4:00pm'' 1 [mk_signee ''zoe'' ''ray''])))
   \<and> class_signup std_libs NoFault (signup_for ''Ana'' ''Lee'') db_twin
       = (SignupSuccessful, db_twin_ana)
   \<and> matching_sessions ''Tumbling'' ''Mon'' ''4:00pm'' (hd db_twin_ana)
       = [mk_session ''Mon'' ''4:00pm'' 2 [mk_signee ''ana'' ''lee''],
          mk_session ''Mon'' ''4:00pm'' 1 [mk_signee ''zoe'' ''ray'', mk_signee ''ana'' ''lee'']]"
  by (simp add: eval_defs char_evals)

text \<open>
  C4. For a valid request, with the catalog loaded: when no class of the catalog has the
  decoded class name, the answer is 404 "Class not found"; when the class found has no
  session with the given day and time, the answer is 404 "Session not found". In both
  cases the collection is left as it was.
\<close>

theorem lookup_failures:
  assumes "valid L raw" and "flt \<noteq> FindRejects" and "findOne db = Some doc"
  shows "(\<not> (\<exists>c \<in> set (classes doc). name c = decodedClassName L raw) \<longrightarrow>
            class_signup L flt raw db = (ClassNotFound, db)
            \<and> status (fst (class_signup L flt raw db)) = 404
            \<and> message (fst (class_signup L flt raw db)) = ''Class not found'')
       \<and> (\<forall>c. find (\<lambda>c. name c = decodedClassName L raw) (classes doc) = Some c
              \<and> \<not> (\<exists>s \<in> set (sessions c). day s = given_day raw \<and> time s = given_time raw) \<longrightarrow>
            class_signup L flt raw db = (SessionNotFound, db)
            \<and> status (fst (class_signup L flt raw db)) = 404
            \<and> message (fst (class_signup L flt raw db)) = ''Session not found'')"
proof (intro conjI impI allI)
  assume "\<not> (\<exists>c \<in> set (classes doc). name c = decodedClassName L raw)"
  then have "find (\<lambda>c. name c = decodedClassName L raw) (classes doc) = None"
    by (simp add: find_None_set)
  from class_signup_no_class [OF assms this]
  show "class_signup L flt raw db = (ClassNotFound, db)"
    and "status (fst (class_signup L flt raw db)) = 404"
    and "message (fst (class_signup L flt raw db)) = ''Class not found''"
    by simp_all
next
  fix c
  assume a: "find (\<lambda>c. name c = decodedClassName L raw) (classes doc) = Some c
     \<and> \<not> (\<exists>s \<in> set (sessions c). day s = given_day raw \<and> time s = given_time raw)"
  then have "find (\<lambda>s. day s = given_day raw \<and> time s = given_time raw) (sessions c) = None"
    by (simp add: find_None_set)
  from class_signup_no_session [OF assms _ this] a
  show "class_signup L flt raw db = (SessionNotFound, db)"
    and "status (fst (class_signup L flt raw db)) = 404"
    and "message (fst (class_signup L flt raw db)) = ''Session not found''"
    by simp_all
qed

theorem lookup_failures_witness:
  "valid std_libs (mk_body ''Yoga'' ''Mon'' ''4:00pm'' ''Ana'' ''Lee'')
   \<and> valid std_libs (mk_body ''Tumbling'' ''Tue'' ''4:00pm'' ''Ana'' ''Lee'')
   \<and> NoFault \<noteq> FindRejects
   \<and> findOne db_none = Some (mk_catalog [mk_session ''Mon'' ''4:00pm'' 2 []])
   \<and> class_signup std_libs NoFault (mk_body ''Yoga'' ''Mon'' ''4:00pm'' ''Ana'' ''Lee'') db_none
       = (ClassNotFound, db_none)
   \<and> status (fst (class_signup std_libs NoFault
        (mk_body ''Yoga'' ''Mon'' ''4:00pm'' ''Ana'' ''Lee'') db_none)) = 404
   \<and> message (fst (class_signup std_libs NoFault
        (mk_body ''Yoga'' ''Mon'' ''4:00pm'' ''Ana'' ''Lee'') db_none)) = ''Class not found''
   \<and> class_signup std_libs NoFault (mk_body ''Tumbling'' ''Tue'' ''4:00pm'' ''Ana'' ''Lee'') db_none
       = (SessionNotFound, db_none)
   \<and> status (fst (class_signup std_libs NoFault
        (mk_body ''Tumbling'' ''Tue'' ''4:00pm'' ''Ana'' ''Lee'') db_none)) = 404
   \<and> message (fst (class_signup std_libs NoFault
        (mk_body ''Tumbling'' ''Tue'' ''4:00pm'' ''Ana'' ''Lee'') db_none)) = ''Session not found''"
proof -
  let ?doc = "mk_catalog [mk_session ''Mon'' ''4:00pm'' 2 []]"
  let ?yoga = "mk_body ''Yoga'' ''Mon'' ''4:00pm'' ''Ana'' ''Lee''"
  let ?tue = "mk_body ''Tumbling'' ''Tue'' ''4:00pm'' ''Ana'' ''Lee''"
  let ?cls = "\<lparr>name = ''Tumbling'', sessions = [mk_session ''Mon'' ''4:00pm'' 2 []],
      class_id = ''tumbling''\<rparr>"
  have v1: "valid std_libs ?yoga" and v2: "valid std_libs ?tue"
    by (simp_all add: eval_defs char_evals)
  have f: "NoFault \<noteq> FindRejects" by simp
  have d: "findOne db_none = Some ?doc"
    by (simp add: db_none_def findOne_def)
  have no_class: "\<not> (\<exists>c \<in> set (classes ?doc). name c = decodedClassName std_libs ?yoga)"
    by (simp add: eval_defs char_evals)
  have cls: "find (\<lambda>c. name c = decodedClassName std_libs ?tue) (classes ?doc) = Some ?cls"
    by (simp add: eval_defs char_evals)
  have no_session:
    "\<not> (\<exists>s \<in> set (sessions ?cls). day s = given_day ?tue \<and> time s = given_time ?tue)"
    by (simp add: eval_defs char_evals)
  from lookup_failures [OF v1 f d] no_class
  have a: "class_signup std_libs NoFault ?yoga db_none = (ClassNotFound, db_none)"
    "status (fst (class_signup std_libs NoFault ?yoga db_none)) = 404"
    "message (fst (class_signup std_libs NoFault ?yoga db_none)) = ''Class not found''"
    by blast+
  from lookup_failures [OF v2 f d] cls no_session
  have b: "class_signup std_libs NoFault ?tue db_none = (SessionNotFound, db_none)"
    "status (fst (class_signup std_libs NoFault ?tue db_none)) = 404"
    "message (fst (class_signup std_libs NoFault ?tue db_none)) = ''Session not found''"
    by blast+
  from v1 v2 f d a b show ?thesis by (intro conjI)
qed

text \<open>
  C5. A request changes the stored collection only when it answers with success, and then
  it changes exactly one document: on every other answer (validation errors, no class
  data, class not found, session not found, already signed up, session full, server
  error) the collection it leaves is the collection it found.
\<close>

theorem register_mutates_once:
  assumes "class_signup L flt raw db = (r, db')"
  shows "(r \<noteq> SignupSuccessful \<longrightarrow> db' = db)
       \<and> (r = SignupSuccessful \<longrightarrow>
            length db' = length db
            \<and> (\<exists>i < length db. db' ! i \<noteq> db ! i \<and> (\<forall>j < length db. j \<noteq> i \<longrightarrow> db' ! j = db ! j)))"
proof (cases "r = SignupSuccessful")
  case False
  with assms show ?thesis by (auto dest: class_signup_failure)
next
  case True
  with assms have "class_signup L flt raw db = (SignupSuccessful, db')" by simp
  then obtain doc rest c s where
    db: "db = doc # rest"
    and c: "find (\<lambda>c. name c = decodedClassName L raw) (classes doc) = Some c"
    and s: "find (\<lambda>s. day s = given_day raw \<and> time s = given_time raw) (sessions c) = Some s"
    and db': "db' = push_signee (decodedClassName L raw) (given_day raw) (given_time raw)
               (given_signee raw) doc # rest"
    by (rule class_signup_success)
  have len: "length db' = length db" using db db' by simp
  have zero: "db' ! 0 \<noteq> db ! 0"
    using db db' push_signee_neq [OF c s] by simp
  have others: "\<forall>j < length db. j \<noteq> 0 \<longrightarrow> db' ! j = db ! j"
    using db db' by (auto simp: nth_Cons split: nat.splits)
  from db have "0 < length db" by simp
  with zero others have "\<exists>i < length db. db' ! i \<noteq> db ! i \<and> (\<forall>j < length db. j \<noteq> i \<longrightarrow> db' ! j = db ! j)"
    by blast
  with True len show ?thesis by simp
qed

theorem register_mutates_once_witness:
  "class_signup std_libs NoFault (signup_for ''Ana'' ''Lee'') db_none = (SignupSuccessful, db_ana)
   \<and> length db_ana = length db_none
   \<and> (\<exists>i < length db_none. db_ana ! i \<noteq> db_none ! i
        \<and> (\<forall>j < length db_none. j \<noteq> i \<longrightarrow> db_ana ! j = db_none ! j))
   \<and> class_signup std_libs NoFault (signup_for ''Cy'' ''Fox'') db_full = (SessionFull, db_full)
   \<and> SessionFull \<noteq> SignupSuccessful"
proof -
  have ok: "class_signup std_libs NoFault (signup_for ''Ana'' ''Lee'') db_none
              = (SignupSuccessful, db_ana)"
    by (simp add: eval_defs char_evals)
  have full: "class_signup std_libs NoFault (signup_for ''Cy'' ''Fox'') db_full
              = (SessionFull, snd (class_signup std_libs NoFault (signup_for ''Cy'' ''Fox'') db_full))"
    by (simp add: eval_defs char_evals)
  from register_mutates_once [OF ok] register_mutates_once [OF full] ok full
  show ?thesis by simp
qed

text \<open>
  C6. On success the checked session gains, at the end of its list, the signee of the
  request with the four name fields in lower case and the phone number as given. And
  after any sequence of requests, every signee in the collection either was there before
  or has its four name fields in lower case.
\<close>

theorem stored_names_lowercase:
  "(class_signup L flt raw db = (SignupSuccessful, db') \<longrightarrow>
      (\<exists>s. checked_session (decodedClassName L raw) (given_day raw) (given_time raw) db = Some s
          \<and> checked_session (decodedClassName L raw) (given_day raw) (given_time raw) db'
              = Some (s\<lparr>signees := signees s @
                  [\<lparr>childFirstName = toLowerCase (childFirstName (given_signee raw)),
                    childLastName = toLowerCase (childLastName (given_signee raw)),
                    parentFirstName = toLowerCase (parentFirstName (given_signee raw)),
                    parentLastName = toLowerCase (parentLastName (given_signee raw)),
                    parentPhoneNumber = parentPhoneNumber (given_signee raw)\<rparr>]\<rparr>)))
   \<and> (\<forall>g \<in> all_signees (run L rs db). g \<in> all_signees db \<or> lower_names g)"
proof (intro conjI impI ballI)
  assume "class_signup L flt raw db = (SignupSuccessful, db')"
  then obtain doc rest c s where db: "db = doc # rest"
    and c: "find (\<lambda>c. name c = decodedClassName L raw) (classes doc) = Some c"
    and s: "find (\<lambda>s. day s = given_day raw \<and> time s = given_time raw) (sessions c) = Some s"
    and db': "db' = push_signee (decodedClassName L raw) (given_day raw) (given_time raw)
               (given_signee raw) doc # rest"
    by (rule class_signup_success)
  from checked_session_push(1) [OF c s, where rest = rest]
    checked_session_push(2) [OF c s, where rest = rest and g = "given_signee raw"] db db'
  show "\<exists>s. checked_session (decodedClassName L raw) (given_day raw) (given_time raw) db = Some s
          \<and> checked_session (decodedClassName L raw) (given_day raw) (given_time raw) db'
              = Some (s\<lparr>signees := signees s @
                  [\<lparr>childFirstName = toLowerCase (childFirstName (given_signee raw)),
                    childLastName = toLowerCase (childLastName (given_signee raw)),
                    parentFirstName = toLowerCase (parentFirstName (given_signee raw)),
                    parentLastName = toLowerCase (parentLastName (given_signee raw)),
                    parentPhoneNumber = parentPhoneNumber (given_signee raw)\<rparr>]\<rparr>)"
    by (simp add: cast_signee_def)
next
  fix g
  assume "g \<in> all_signees (run L rs db)"
  then show "g \<in> all_signees db \<or> lower_names g" by (rule run_signees)
qed

theorem stored_names_lowercase_witness:
  "class_signup std_libs NoFault (mk_body ''Tumbling'' ''Mon'' ''4:00pm'' ''ANA'' ''Lee'') db_none
     = (SignupSuccessful, db_ana)
   \<and> checked_session ''Tumbling'' ''Mon'' ''4:00pm'' db_none
       = Some (mk_session ''Mon'' ''4:00pm'' 2 [])
   \<and> checked_session ''Tumbling'' ''Mon'' ''4:00pm'' db_ana
       = Some (mk_session ''Mon'' ''4:00pm'' 2 [mk_signee ''ana'' ''lee''])
   \<and> mk_signee ''ben'' ''kim''
       \<in> all_signees (run std_libs [(NoFault, signup_for ''Ana'' ''Lee''),
            (NoFault, signup_for ''BEN'' ''Kim'')] db_none)
   \<and> mk_signee ''ben'' ''kim'' \<notin> all_signees db_none
   \<and> lower_names (mk_signee ''ben'' ''kim'')"
proof -
  let ?raw = "mk_body ''Tumbling'' ''Mon'' ''4:00pm'' ''ANA'' ''Lee''"
  let ?rs = "[(NoFault, signup_for ''Ana'' ''Lee''), (NoFault, signup_for ''BEN'' ''Kim'')]"
  have ok: "class_signup std_libs NoFault ?raw db_none = (SignupSuccessful, db_ana)"
    by (simp add: eval_defs char_evals)
  have r: "decodedClassName std_libs ?raw = ''Tumbling''" "given_day ?raw = ''Mon''"
    "given_time ?raw = ''4:00pm''"
    by (simp_all add: eval_defs char_evals)
  have run: "run std_libs ?rs db_none = db_full"
    by (simp add: eval_defs char_evals)
  have mem: "mk_signee ''ben'' ''kim'' \<in> all_signees (run std_libs ?rs db_none)"
    unfolding run by (simp add: all_signees_def db_full_def mk_catalog_def mk_session_def)
  have new: "mk_signee ''ben'' ''kim'' \<notin> all_signees db_none"
    by (simp add: all_signees_def db_none_def mk_catalog_def mk_session_def)
  note inst = stored_names_lowercase [of std_libs NoFault ?raw db_none db_ana ?rs]
  from inst ok have
    "\<exists>s. checked_session ''Tumbling'' ''Mon'' ''4:00pm'' db_none = Some s
       \<and> checked_session ''Tumbling'' ''Mon'' ''4:00pm'' db_ana
           = Some (s\<lparr>signees := signees s @
               [\<lparr>childFirstName = toLowerCase (childFirstName (given_signee ?raw)),
                 childLastName = toLowerCase (childLastName (given_signee ?raw)),
                 parentFirstName = toLowerCase (parentFirstName (given_signee ?raw)),
                 parentLastName = toLowerCase (parentLastName (given_signee ?raw)),
                 parentPhoneNumber = parentPhoneNumber (given_signee ?raw)\<rparr>]\<rparr>)"
    unfolding r by blast
  then have chk: "checked_session ''Tumbling'' ''Mon'' ''4:00pm'' db_none
       = Some (mk_session ''Mon'' ''4:00pm'' 2 [])
     \<and> checked_session ''Tumbling'' ''Mon'' ''4:00pm'' db_ana
       = Some (mk_session ''Mon'' ''4:00pm'' 2 [mk_signee ''ana'' ''lee''])"
    by (auto simp: eval_defs char_evals)
  from inst mem new have "lower_names (mk_signee ''ben'' ''kim'')" by blast
  with ok chk mem new show ?thesis by simp
qed

text \<open>
  C9, as stated, where the class also stores a session under the escaped text: the day
  ``Mon/Wed'' is altered by escaping and a session stored as typed exists, yet the request
  matches the session stored as \<^verbatim>\<open>Mon&#x2F;Wed\<close> and succeeds.
\<close>

theorem escaped_day_stored_counterexample:
  "valid std_libs (mk_body ''Tumbling'' ''Mon/Wed'' ''4:00pm'' ''Ana'' ''Lee'')
   \<and> escape (trim ''Mon/Wed'') \<noteq> trim ''Mon/Wed''
   \<and> checked_session ''Tumbling'' ''Mon/Wed'' ''4:00pm'' db_slash_both
       = Some (mk_session ''Mon/Wed'' ''4:00pm'' 2 [])
   \<and> class_signup std_libs NoFault (mk_body ''Tumbling'' ''Mon/Wed'' ''4:00pm'' ''Ana'' ''Lee'')
        db_slash_both = (SignupSuccessful, db_slash_both_ana)
   \<and> fst (class_signup std_libs NoFault (mk_body ''Tumbling'' ''Mon/Wed'' ''4:00pm'' ''Ana'' ''Lee'')
        db_slash_both) \<noteq> SessionNotFound"
  by (simp add: eval_defs char_evals)

text \<open>
  C9, amended. Only the class name is decoded; the day and time are compared as
  \<open>escape\<close> leaves them. So, for a valid request whose class is found and whose
  trimmed day or time is altered by escaping, a session stored under the day and time as
  typed is not matched, and the answer is "Session not found" with nothing stored,
  provided no session of the class is stored under the escaped day and time.
\<close>

theorem escaped_day_time_lookup:
  assumes v: "valid L raw" and f: "flt \<noteq> FindRejects" and d: "findOne db = Some doc"
    and c: "find (\<lambda>c. name c = decodedClassName L raw) (classes doc) = Some c"
    and altered: "escape (trim (b_day raw)) \<noteq> trim (b_day raw)
                  \<or> escape (trim (b_time raw)) \<noteq> trim (b_time raw)"
  shows "decodedClassName L raw = he_decode L (escape (trim (b_className raw)))
       \<and> given_day raw = escape (trim (b_day raw))
       \<and> given_time raw = escape (trim (b_time raw))
       \<and> (\<forall>s \<in> set (sessions c).
             day s = trim (b_day raw) \<and> time s = trim (b_time raw) \<longrightarrow>
             \<not> (day s = given_day raw \<and> time s = given_time raw))
       \<and> ((\<forall>s \<in> set (sessions c). \<not> (day s = given_day raw \<and> time s = given_time raw)) \<longrightarrow>
             class_signup L flt raw db = (SessionNotFound, db))"
proof (intro conjI ballI impI)
  show "decodedClassName L raw = he_decode L (escape (trim (b_className raw)))"
    by (simp add: decodedClassName_def sanitize_def)
  show gd: "given_day raw = escape (trim (b_day raw))"
    by (simp add: given_day_def sanitize_def)
  show gt: "given_time raw = escape (trim (b_time raw))"
    by (simp add: given_time_def sanitize_def)
  show "\<not> (day s = given_day raw \<and> time s = given_time raw)"
    if "day s = trim (b_day raw) \<and> time s = trim (b_time raw)" for s
    using that altered gd gt by auto
  show "class_signup L flt raw db = (SessionNotFound, db)"
    if "\<forall>s \<in> set (sessions c). \<not> (day s = given_day raw \<and> time s = given_time raw)"
  proof -
    from that
    have "find (\<lambda>s. day s = given_day raw \<and> time s = given_time raw) (sessions c) = None"
      by (simp add: find_None_set)
    with v f d c show ?thesis by (rule class_signup_no_session)
  qed
qed

theorem escaped_day_time_lookup_witness:
  "valid std_libs (mk_body ''Tumbling'' ''Mon/Wed'' ''4:00pm'' ''Ana'' ''Lee'')
   \<and> NoFault \<noteq> FindRejects
   \<and> findOne db_slash = Some (mk_catalog [mk_session ''Mon/Wed'' ''4:00pm'' 2 []])
   \<and> escape (trim ''Mon/Wed'') \<noteq> trim ''Mon/Wed''
   \<and> given_day (mk_body ''Tumbling'' ''Mon/Wed'' ''4:00pm'' ''Ana'' ''Lee'') = ''Mon&#x2F;Wed''
   \<and> given_time (mk_body ''Tumbling'' ''Mon/Wed'' ''4:00pm'' ''Ana'' ''Lee'') = ''4:00pm''
   \<and> class_signup std_libs NoFault (mk_body ''Tumbling'' ''Mon/Wed'' ''4:00pm'' ''Ana'' ''Lee'')
        db_slash = (SessionNotFound, db_slash)"
proof -
  let ?raw = "mk_body ''Tumbling'' ''Mon/Wed'' ''4:00pm'' ''Ana'' ''Lee''"
  let ?doc = "mk_catalog [mk_session ''Mon/Wed'' ''4:00pm'' 2 []]"
  let ?cls = "\<lparr>name = ''Tumbling'', sessions = [mk_session ''Mon/Wed'' ''4:00pm'' 2 []],
      class_id = ''tumbling''\<rparr>"
  have v: "valid std_libs ?raw" by (simp add: eval_defs char_evals)
  have f: "NoFault \<noteq> FindRejects" by simp
  have d: "findOne db_slash = Some ?doc" by (simp add: db_slash_def findOne_def)
  have c: "find (\<lambda>c. name c = decodedClassName std_libs ?raw) (classes ?doc) = Some ?cls"
    by (simp add: eval_defs char_evals)
  have e: "escape (trim ''Mon/Wed'') \<noteq> trim ''Mon/Wed''"
    by (simp add: eval_defs char_evals)
  then have a: "escape (trim (b_day ?raw)) \<noteq> trim (b_day ?raw)
                  \<or> escape (trim (b_time ?raw)) \<noteq> trim (b_time ?raw)"
    by (simp add: mk_body_def)
  have g: "escape (trim (b_day ?raw)) = ''Mon&#x2F;Wed''" "escape (trim (b_time ?raw)) = ''4:00pm''"
    by (simp_all add: eval_defs char_evals)
  have n: "\<forall>s \<in> set (sessions ?cls). \<not> (day s = given_day ?raw \<and> time s = given_time ?raw)"
    by (simp add: eval_defs char_evals)
  from escaped_day_time_lookup [OF v f d c a] n
  have "given_day ?raw = escape (trim (b_day ?raw))"
    "given_time ?raw = escape (trim (b_time ?raw))"
    "class_signup std_libs NoFault ?raw db_slash = (SessionNotFound, db_slash)"
    by blast+
  with v f d e g show ?thesis by simp
qed

text \<open>
  C10. A successful request appends the signee, as the schema casts it, to every session
  with the given day and time in every class with the decoded name, and changes nothing
  else of the first document: where two such sessions exist, both receive the signee, not
  only the one whose capacity and list were checked.
\<close>

theorem push_reaches_every_match:
  assumes "class_signup L flt raw db = (SignupSuccessful, db')"
  shows "\<exists>doc doc' rest. db = doc # rest \<and> db' = doc' # rest \<and> season doc' = season doc
           \<and> list_all2
                (\<lambda>c c'. name c' = name c \<and> class_id c' = class_id c
                   \<and> list_all2
                        (\<lambda>s s'. s' =
                           (if name c = decodedClassName L raw \<and> day s = given_day raw
                                 \<and> time s = given_time raw
                            then s\<lparr>signees := signees s @ [cast_signee (given_signee raw)]\<rparr>
                            else s))
                        (sessions c) (sessions c'))
                (classes doc) (classes doc')"
proof -
  let ?cn = "decodedClassName L raw" and ?d = "given_day raw" and ?t = "given_time raw"
    and ?g = "given_signee raw"
  from assms obtain doc rest where db: "db = doc # rest"
    and db': "db' = push_signee ?cn ?d ?t ?g doc # rest"
    by (rule class_signup_success)
  have "list_all2
          (\<lambda>c c'. name c' = name c \<and> class_id c' = class_id c
             \<and> list_all2
                  (\<lambda>s s'. s' =
                     (if name c = ?cn \<and> day s = ?d \<and> time s = ?t
                      then s\<lparr>signees := signees s @ [cast_signee ?g]\<rparr> else s))
                  (sessions c) (sessions c'))
          (classes doc) (classes (push_signee ?cn ?d ?t ?g doc))"
    by (simp add: list_all2_map2 list_all2_same push_session_def)
  with db db' show ?thesis by simp
qed

theorem push_reaches_every_match_witness:
  "class_signup std_libs NoFault (signup_for ''Ana'' ''Lee'') db_twin
     = (SignupSuccessful, db_twin_ana)
   \<and> map (map signees \<circ> sessions) (classes (hd db_twin))
       = [[[], [], [mk_signee ''zoe'' ''ray'']]]
   \<and> map (map signees \<circ> sessions) (classes (hd db_twin_ana))
       = [[[mk_signee ''ana'' ''lee''], [], [mk_signee ''zoe'' ''ray'', mk_signee ''ana'' ''lee'']]]"
proof -
  have h: "class_signup std_libs NoFault (signup_for ''Ana'' ''Lee'') db_twin
     = (SignupSuccessful, snd (class_signup std_libs NoFault (signup_for ''Ana'' ''Lee'') db_twin))"
    by (simp add: eval_defs char_evals)
  have r: "decodedClassName std_libs (signup_for ''Ana'' ''Lee'') = ''Tumbling''"
    "given_day (signup_for ''Ana'' ''Lee'') = ''Mon''"
    "given_time (signup_for ''Ana'' ''Lee'') = ''4:00pm''"
    "cast_signee (given_signee (signup_for ''Ana'' ''Lee'')) = mk_signee ''ana'' ''lee''"
    by (simp_all add: eval_defs char_evals)
  from push_reaches_every_match [OF h]
  have "snd (class_signup std_libs NoFault (signup_for ''Ana'' ''Lee'') db_twin) = db_twin_ana"
    unfolding r
    by (auto simp: db_twin_def db_twin_ana_def mk_catalog_def mk_session_def
        list_all2_Cons1 gymnastics.equality gym_class.equality)
  with h show ?thesis
    by (simp add: db_twin_def db_twin_ana_def mk_catalog_def mk_session_def)
qed

section \<open>Claims about the read routes\<close>

text \<open>
  C7. When both collections hold a document, \<^verbatim>\<open>GET /classes\<close> answers with the first
  document of each, every field as stored but \<open>signees\<close>, which is the length of the
  stored list of signees. The answer has no place for a signee: the field is a number.
\<close>

theorem classes_show_counts:
  assumes "flt \<noteq> FindRejects" and "findOne signups_db = Some s" and "findOne upcoming_db = Some u"
  shows "\<exists>r. get_classes flt signups_db upcoming_db = ClassesOk r
           \<and> shows_counts s (signups r) \<and> shows_counts u (upcoming r)"
proof -
  have "shows_counts doc \<lparr>j_season = season doc, j_classes = classes_with_counts doc\<rparr>" for doc
    by (simp add: shows_counts_def classes_with_counts_def session_with_count_def
        list_all2_map2 list_all2_same)
  with assms show ?thesis
    by (simp add: get_classes_def)
qed

theorem classes_show_counts_witness:
  "NoFault \<noteq> FindRejects
   \<and> findOne db_full
       = Some (mk_catalog [mk_session ''Mon'' ''4:00pm'' 2
                 [mk_signee ''ana'' ''lee'', mk_signee ''ben'' ''kim'']])
   \<and> findOne upcoming_sample = Some (hd upcoming_sample)
   \<and> get_classes NoFault db_full upcoming_sample
       = ClassesOk
           \<lparr>signups =
              \<lparr>j_season = ''Fall'',
               j_classes =
                 [\<lparr>j_name = ''Tumbling'',
                   j_sessions = [\<lparr>j_day = ''Mon'', j_time = ''4:00pm'', j_maxSignups = 2,
                                  j_price = 10, j_signees = 2\<rparr>],
                   j_class_id = ''tumbling''\<rparr>]\<rparr>,
            upcoming =
              \<lparr>j_season = ''Winter'',
               j_classes =
                 [\<lparr>j_name = ''Trampoline'',
                   j_sessions = [\<lparr>j_day = ''Sat'', j_time = ''9:00am'', j_maxSignups = 8,
                                  j_price = 10, j_signees = 0\<rparr>],
                   j_class_id = ''trampoline''\<rparr>]\<rparr>\<rparr>"
proof -
  let ?s = "mk_catalog [mk_session ''Mon'' ''4:00pm'' 2
                 [mk_signee ''ana'' ''lee'', mk_signee ''ben'' ''kim'']]"
  have f: "NoFault \<noteq> FindRejects" by simp
  have s: "findOne db_full = Some ?s" by (simp add: db_full_def findOne_def)
  have u: "findOne upcoming_sample = Some (hd upcoming_sample)"
    by (simp add: upcoming_sample_def findOne_def)
  from classes_show_counts [OF f s u] obtain r where
    r: "get_classes NoFault db_full upcoming_sample = ClassesOk r"
    and a: "shows_counts ?s (signups r)" and b: "shows_counts (hd upcoming_sample) (upcoming r)"
    by blast
  from a have "signups r = \<lparr>j_season = ''Fall'',
               j_classes =
                 [\<lparr>j_name = ''Tumbling'',
                   j_sessions = [\<lparr>j_day = ''Mon'', j_time = ''4:00pm'', j_maxSignups = 2,
                                  j_price = 10, j_signees = 2\<rparr>],
                   j_class_id = ''tumbling''\<rparr>]\<rparr>"
    by (auto simp: shows_counts_def mk_catalog_def mk_session_def list_all2_Cons1
        catalog_json.equality class_json.equality session_json.equality)
  moreover from b have "upcoming r = \<lparr>j_season = ''Winter'',
               j_classes =
                 [\<lparr>j_name = ''Trampoline'',
                   j_sessions = [\<lparr>j_day = ''Sat'', j_time = ''9:00am'', j_maxSignups = 8,
                                  j_price = 10, j_signees = 0\<rparr>],
                   j_class_id = ''trampoline''\<rparr>]\<rparr>"
    by (auto simp: shows_counts_def upcoming_sample_def mk_session_def list_all2_Cons1
        catalog_json.equality class_json.equality session_json.equality)
  ultimately have "r = \<lparr>signups = \<lparr>j_season = ''Fall'',
               j_classes =
                 [\<lparr>j_name = ''Tumbling'',
                   j_sessions = [\<lparr>j_day = ''Mon'', j_time = ''4:00pm'', j_maxSignups = 2,
                                  j_price = 10, j_signees = 2\<rparr>],
                   j_class_id = ''tumbling''\<rparr>]\<rparr>,
            upcoming = \<lparr>j_season = ''Winter'',
               j_classes =
                 [\<lparr>j_name = ''Trampoline'',
                   j_sessions = [\<lparr>j_day = ''Sat'', j_time = ''9:00am'', j_maxSignups = 8,
                                  j_price = 10, j_signees = 0\<rparr>],
                   j_class_id = ''trampoline''\<rparr>]\<rparr>\<rparr>"
    by (simp add: classes_json.equality)
  with r f s u show ?thesis by simp
qed

text \<open>
  C8. When \<^verbatim>\<open>GET /events\<close> succeeds, it answers with the stored events, each once, in
  ascending order of date: of two neighbours the earlier has the lesser or equal date.
\<close>

theorem events_ascending:
  assumes "get_events flt events_db = EventsOk r"
  shows "(\<forall>i. Suc i < length r \<longrightarrow> date (r ! i) \<le> date (r ! Suc i))
       \<and> mset r = mset events_db"
proof -
  from assms have r: "r = sort_key date events_db"
    by (simp add: get_events_def split: if_splits)
  have "sorted (map date r)" unfolding r by (rule sorted_sort_key)
  then have "\<forall>i. Suc i < length r \<longrightarrow> date (r ! i) \<le> date (r ! Suc i)"
    by (simp add: sorted_iff_nth_Suc)
  moreover have "mset r = mset events_db" unfolding r by simp
  ultimately show ?thesis by simp
qed

theorem events_ascending_witness:
  "get_events NoFault events_sample
     = EventsOk [\<lparr>event_name = ''Open day'', date = 100, duration = 3\<rparr>,
                 \<lparr>event_name = ''Camp'', date = 200, duration = 5\<rparr>,
                 \<lparr>event_name = ''Meet'', date = 300, duration = 2\<rparr>]
   \<and> date (sort_key date events_sample ! 0) \<le> date (sort_key date events_sample ! 1)
   \<and> date (sort_key date events_sample ! 1) \<le> date (sort_key date events_sample ! 2)
   \<and> mset (sort_key date events_sample) = mset events_sample"
proof -
  have h: "get_events NoFault events_sample = EventsOk (sort_key date events_sample)"
    by (simp add: get_events_def)
  have v: "sort_key date events_sample
     = [\<lparr>event_name = ''Open day'', date = 100, duration = 3\<rparr>,
        \<lparr>event_name = ''Camp'', date = 200, duration = 5\<rparr>,
        \<lparr>event_name = ''Meet'', date = 300, duration = 2\<rparr>]"
    by (simp add: events_sample_def)
  have l: "length (sort_key date events_sample) = 3"
    by (simp add: events_sample_def)
  from events_ascending [OF h] l
  have "date (sort_key date events_sample ! 0) \<le> date (sort_key date events_sample ! 1)"
    "date (sort_key date events_sample ! 1) \<le> date (sort_key date events_sample ! 2)"
    "mset (sort_key date events_sample) = mset events_sample"
    by (auto simp: numeral_2_eq_2 numeral_3_eq_3)
  with h v show ?thesis by simp
qed

end
